theory Spec2Isabelle
  imports Main "HOL-Library.Word" "HOL-Library.AList"
begin

section \<open>Bytes, exceptions and the struct module\<close>

text \<open>
  A Python \<open>bytes\<close> object is a list of 8-bit words; Python integers are unbounded and
  are modelled by \<open>int\<close>.
\<close>

type_synonym byte = "8 word"

type_synonym bytes = "byte list"

text \<open>
  The exceptions the archive code can raise. \<open>OBTError\<close> and \<open>InvalidOBTFileError\<close> are
  the two classes of the source (the second is a subclass of the first); each carries the
  message passed to its constructor. The others are the built-in exceptions raised by the
  interpreter and the standard library on the paths the code takes.
\<close>

datatype py_error =
    OBTError string
  | InvalidOBTFileError string
  | FileNotFoundError string
  | StructError
  | TypeError
  | KeyError
  | AttributeError
  | OSError
  | UnsupportedOperation

text \<open>\<open>except OBTError\<close> catches both classes; \<open>except InvalidOBTFileError\<close> only one.\<close>

fun is_OBTError :: "py_error \<Rightarrow> bool" where
  "is_OBTError (OBTError m) = True"
| "is_OBTError (InvalidOBTFileError m) = True"
| "is_OBTError e = False"

fun is_InvalidOBTFileError :: "py_error \<Rightarrow> bool" where
  "is_InvalidOBTFileError (InvalidOBTFileError m) = True"
| "is_InvalidOBTFileError e = False"

text \<open>\<open>int.from_bytes(bs, "little")\<close>.\<close>

fun from_bytes_little :: "bytes \<Rightarrow> int" where
  "from_bytes_little [] = 0"
| "from_bytes_little (b # bs) = uint b + 256 * from_bytes_little bs"

text \<open>
  One \<open>I\<close> field of \<open>struct.pack("<III", ...)\<close>: four bytes, least significant first;
  \<open>struct.error\<close> when the value does not fit an unsigned 32-bit integer.
\<close>

definition pack_I :: "int \<Rightarrow> py_error + bytes" where
  "pack_I v =
     (if 0 \<le> v \<and> v \<le> 4294967295
      then Inr [word_of_int v, word_of_int (v div 256),
                word_of_int (v div 65536), word_of_int (v div 16777216)]
      else Inl StructError)"

definition struct_pack_III :: "int \<Rightarrow> int \<Rightarrow> int \<Rightarrow> py_error + bytes" where
  "struct_pack_III a b c =
     (case pack_I a of Inl e \<Rightarrow> Inl e
      | Inr x \<Rightarrow>
          (case pack_I b of Inl e \<Rightarrow> Inl e
           | Inr y \<Rightarrow>
               (case pack_I c of Inl e \<Rightarrow> Inl e
                | Inr z \<Rightarrow> Inr (x @ y @ z))))"

text \<open>\<open>struct.unpack("<III", row)\<close>: \<open>struct.error\<close> unless the buffer has 12 bytes.\<close>

definition struct_unpack_III :: "bytes \<Rightarrow> py_error + (int \<times> int \<times> int)" where
  "struct_unpack_III row =
     (if length row \<noteq> 12 then Inl StructError
      else Inr (from_bytes_little (take 4 row),
                from_bytes_little (take 4 (drop 4 row)),
                from_bytes_little (take 4 (drop 8 row))))"

section \<open>The open file\<close>

text \<open>
  The file object \<open>fp\<close>: the bytes of the file it is opened on, the current position,
  and whether it was opened for writing (\<open>"wb+"\<close>) or for reading only (\<open>"rb"\<close>).
\<close>

record py_file =
  content :: bytes
  pos :: nat
  writable :: bool

definition fp_seek :: "int \<Rightarrow> py_file \<Rightarrow> py_error + py_file" where
  "fp_seek off f = (if off < 0 then Inl OSError else Inr (f\<lparr>pos := nat off\<rparr>))"

text \<open>\<open>fp.read(n)\<close> returns at most \<open>n\<close> bytes, fewer at the end of the file; a negative
  \<open>n\<close> reads to the end.\<close>

definition fp_read :: "int \<Rightarrow> py_file \<Rightarrow> bytes \<times> py_file" where
  "fp_read n f =
     (let avail = drop (pos f) (content f);
          out = (if n < 0 then avail else take (nat n) avail)
      in (out, f\<lparr>pos := pos f + length out\<rparr>))"

text \<open>\<open>fp.write(d)\<close> overwrites from the current position and extends the file; a position
  beyond the end is padded with zero bytes.\<close>

definition fp_write :: "bytes \<Rightarrow> py_file \<Rightarrow> py_error + py_file" where
  "fp_write d f =
     (if \<not> writable f then Inl UnsupportedOperation
      else Inr (f\<lparr>content := take (pos f) (content f)
                              @ replicate (pos f - length (content f)) 0
                              @ d
                              @ drop (pos f + length d) (content f),
                  pos := pos f + length d\<rparr>))"

section \<open>OBTEntry\<close>

text \<open>
  The field \<open>size\<close> of the source is \<open>size_e\<close> here. \<open>is_compressed\<close> holds an integer
  in a parsed entry and a Python \<open>bool\<close> in an entry to be written; \<open>bool\<close> is a subclass
  of \<open>int\<close> with \<open>True == 1\<close> and \<open>False == 0\<close>, so the field is an \<open>int\<close>.
\<close>

record OBTEntry =
  offset :: int
  size_e :: int
  is_compressed :: int
  loaded :: bool
  raw_entry :: "bytes option"

definition OBTEntry_init :: OBTEntry where
  "OBTEntry_init =
     \<lparr>offset = -1, size_e = -1, is_compressed = -1, loaded = False, raw_entry = None\<rparr>"

definition OBTEntry_load :: "int \<Rightarrow> int \<Rightarrow> int \<Rightarrow> OBTEntry \<Rightarrow> OBTEntry" where
  "OBTEntry_load off sz c e =
     e\<lparr>offset := off, size_e := sz, is_compressed := c, loaded := True\<rparr>"

definition frombytes :: "bytes \<Rightarrow> OBTEntry \<Rightarrow> py_error + OBTEntry" where
  "frombytes entry e =
     (if loaded e then Inl (OBTError ''Cannot overwrite a loaded entry'')
      else Inr (e\<lparr>size_e := int (length entry), raw_entry := Some entry\<rparr>))"

section \<open>OBT\<close>

datatype OBTFileMode = OBT_None | OBT_Read | OBT_Write

text \<open>
  The dictionary \<open>entries\<close> is an association list in insertion order, updated with
  \<open>AList.update\<close> (a new key goes to the end, an old key keeps its place) and read with
  \<open>map_of\<close>. Every method returns its result, or the exception it raised, together with
  the object as the call left it.
\<close>

record OBT =
  entries :: "(int \<times> OBTEntry) list"
  fp :: "py_file option"
  filename :: string
  total_size :: int
  entry_offset :: int
  mode :: OBTFileMode

definition OBT_init :: "string \<Rightarrow> OBT" where
  "OBT_init name =
     \<lparr>entries = [], fp = None, filename = name, total_size = 0, entry_offset = 0,
      mode = OBT_None\<rparr>"

text \<open>
  \<open>init_write\<close> and \<open>load\<close> take what the file system holds at \<open>filename\<close>: \<open>None\<close> when
  there is no such file, \<open>Some data\<close> for a file with these bytes.
\<close>

definition init_write :: "bool \<Rightarrow> bytes option \<Rightarrow> OBT \<Rightarrow> (py_error + unit) \<times> OBT" where
  "init_write overwrite disk s =
     (if mode s \<noteq> OBT_None then (Inl (OBTError ''File is already opened''), s)
      else if disk \<noteq> None \<and> \<not> overwrite
      then (Inl (OBTError (''Will not overwrite '' @ filename s
                            @ '' unless explicitly enabled'')), s)
      else (Inr (), s\<lparr>fp := Some \<lparr>content = [], pos = 0, writable = True\<rparr>,
                       mode := OBT_Write\<rparr>))"

text \<open>The body of the loop of \<open>load\<close> for row \<open>i\<close>.\<close>

definition load_entry :: "nat \<Rightarrow> OBT \<Rightarrow> (py_error + unit) \<times> OBT" where
  "load_entry i s =
     (case fp s of
        None \<Rightarrow> (Inl AttributeError, s)
      | Some h \<Rightarrow>
          (case fp_seek (int i * 12) h of
             Inl e \<Rightarrow> (Inl e, s)
           | Inr h1 \<Rightarrow>
               (case fp_read 12 h1 of
                  (row, h2) \<Rightarrow>
                    (let s1 = s\<lparr>fp := Some h2\<rparr> in
                     (case struct_unpack_III row of
                        Inl e \<Rightarrow> (Inl e, s1)
                      | Inr (entry_off, entry_size, entry_is_compressed) \<Rightarrow>
                          if entry_is_compressed \<notin> {0, 1}
                          then (Inl (OBTError ''Unknown compression method''), s1)
                          else (Inr (),
                                s1\<lparr>entries :=
                                      AList.update (int i)
                                        (OBTEntry_load entry_off entry_size
                                           entry_is_compressed OBTEntry_init)
                                        (entries s1),
                                    total_size := total_size s1 + entry_size\<rparr>))))))"

fun load_entries :: "nat list \<Rightarrow> OBT \<Rightarrow> (py_error + unit) \<times> OBT" where
  "load_entries [] s = (Inr (), s)"
| "load_entries (i # rest) s =
     (case load_entry i s of
        (Inl e, s') \<Rightarrow> (Inl e, s')
      | (Inr u, s') \<Rightarrow> load_entries rest s')"

definition load :: "bytes option \<Rightarrow> OBT \<Rightarrow> (py_error + unit) \<times> OBT" where
  "load disk s =
     (if mode s \<noteq> OBT_None then (Inl (OBTError ''File is already opened''), s)
      else
        (case disk of
           None \<Rightarrow> (Inl (FileNotFoundError (filename s)), s)
         | Some data \<Rightarrow>
             (let raw_fsiz = int (length data) in
              if raw_fsiz < 4
              then (Inl (InvalidOBTFileError ''Could not read header size''), s)
              else
                (case fp_seek 0 \<lparr>content = data, pos = 0, writable = False\<rparr> of
                   Inl e \<Rightarrow> (Inl e, s)
                 | Inr h0 \<Rightarrow>
                     (case fp_read 4 h0 of
                        (hb, h1) \<Rightarrow>
                          (let s1 = s\<lparr>fp := Some h1\<rparr>;
                               hdr_size = from_bytes_little hb
                           in if raw_fsiz < hdr_size
                              then (Inl (InvalidOBTFileError ''Could not read header''), s1)
                              else
                                (let s2 = s1\<lparr>total_size := total_size s1 + hdr_size\<rparr>;
                                     n_entries = hdr_size div 12
                                 in (case load_entries [0..<nat n_entries] s2 of
                                       (Inl e, s3) \<Rightarrow> (Inl e, s3)
                                     | (Inr u, s3) \<Rightarrow>
                                         if raw_fsiz < total_size s3
                                         then (Inl (InvalidOBTFileError
                                                      ''Not enough data in file''), s3)
                                         else (Inr (), s3\<lparr>mode := OBT_Read\<rparr>)))))))))"

definition add_entry :: "bytes \<Rightarrow> bool \<Rightarrow> OBT \<Rightarrow> (py_error + unit) \<times> OBT" where
  "add_entry entry compressed s =
     (if mode s \<noteq> OBT_Write
      then (Inl (OBTError ''OBT has not been opened for writing''), s)
      else
        (case frombytes entry OBTEntry_init of
           Inl e \<Rightarrow> (Inl e, s)
         | Inr obt_entry \<Rightarrow>
             (Inr (),
              s\<lparr>entries :=
                  AList.update (entry_offset s)
                    (obt_entry\<lparr>is_compressed := (if compressed then 1 else 0)\<rparr>)
                    (entries s),
                entry_offset := entry_offset s + 1\<rparr>)))"

text \<open>\<open>self.fp.write(d)\<close> on the archive's file object.\<close>

definition obt_write :: "bytes \<Rightarrow> OBT \<Rightarrow> (py_error + unit) \<times> OBT" where
  "obt_write d s =
     (case fp s of
        None \<Rightarrow> (Inl AttributeError, s)
      | Some h \<Rightarrow>
          (case fp_write d h of
             Inl e \<Rightarrow> (Inl e, s)
           | Inr h' \<Rightarrow> (Inr (), s\<lparr>fp := Some h'\<rparr>)))"

text \<open>The first loop of \<open>finalize_write\<close>: one header row per index, \<open>cur_off\<close> running.\<close>

fun write_header :: "nat list \<Rightarrow> int \<Rightarrow> OBT \<Rightarrow> (py_error + unit) \<times> OBT" where
  "write_header [] cur_off s = (Inr (), s)"
| "write_header (i # rest) cur_off s =
     (case map_of (entries s) (int i) of
        None \<Rightarrow> (Inl KeyError, s)
      | Some ent \<Rightarrow>
          (case struct_pack_III cur_off (size_e ent) (is_compressed ent) of
             Inl e \<Rightarrow> (Inl e, s)
           | Inr header_entry \<Rightarrow>
               (case obt_write header_entry s of
                  (Inl e, s') \<Rightarrow> (Inl e, s')
                | (Inr u, s') \<Rightarrow> write_header rest (cur_off + size_e ent) s')))"

text \<open>The second loop: the payloads. Writing \<open>None\<close> raises \<open>TypeError\<close>.\<close>

fun write_entries :: "nat list \<Rightarrow> OBT \<Rightarrow> (py_error + unit) \<times> OBT" where
  "write_entries [] s = (Inr (), s)"
| "write_entries (i # rest) s =
     (case map_of (entries s) (int i) of
        None \<Rightarrow> (Inl KeyError, s)
      | Some ent \<Rightarrow>
          (case raw_entry ent of
             None \<Rightarrow> (Inl TypeError, s)
           | Some d \<Rightarrow>
               (case obt_write d s of
                  (Inl e, s') \<Rightarrow> (Inl e, s')
                | (Inr u, s') \<Rightarrow> write_entries rest s')))"

definition finalize_write :: "OBT \<Rightarrow> (py_error + unit) \<times> OBT" where
  "finalize_write s =
     (if mode s \<noteq> OBT_Write
      then (Inl (OBTError ''OBT has not been opened for writing''), s)
      else if length (entries s) = 0 then (Inl (OBTError ''No entries to write''), s)
      else
        (let n = length (entries s);
             header_size = int n * 12
         in (case fp s of
               None \<Rightarrow> (Inl AttributeError, s)
             | Some h \<Rightarrow>
                 (case fp_seek 0 h of
                    Inl e \<Rightarrow> (Inl e, s)
                  | Inr h0 \<Rightarrow>
                      (case write_header [0..<n] header_size (s\<lparr>fp := Some h0\<rparr>) of
                         (Inl e, s1) \<Rightarrow> (Inl e, s1)
                       | (Inr u, s1) \<Rightarrow> write_entries [0..<n] s1)))))"

text \<open>
  \<open>raise OBTEntry(msg)\<close> in \<open>export_entry\<close> calls the constructor of \<open>OBTEntry\<close>, which
  takes no argument: the call raises \<open>TypeError\<close>.
\<close>

definition export_entry :: "int \<Rightarrow> OBT \<Rightarrow> (py_error + bytes) \<times> OBT" where
  "export_entry entry_idx s =
     (if mode s \<noteq> OBT_Read then (Inl (OBTError ''File is not opened''), s)
      else
        (case map_of (entries s) entry_idx of
           None \<Rightarrow> (Inl TypeError, s)
         | Some entry \<Rightarrow>
             (case fp s of
                None \<Rightarrow> (Inl AttributeError, s)
              | Some h \<Rightarrow>
                  (case fp_seek (offset entry) h of
                     Inl e \<Rightarrow> (Inl e, s)
                   | Inr h1 \<Rightarrow>
                       (case fp_read (size_e entry) h1 of
                          (out, h2) \<Rightarrow> (Inr out, s\<lparr>fp := Some h2\<rparr>))))))"

section \<open>The writer's call sequence\<close>

text \<open>
  The \<open>create\<close> command opens the archive for writing, adds the entries in order and
  finalizes. The bytes of the file afterwards are the content of the file object.
\<close>

fun add_entries :: "(bytes \<times> bool) list \<Rightarrow> OBT \<Rightarrow> (py_error + unit) \<times> OBT" where
  "add_entries [] s = (Inr (), s)"
| "add_entries ((entry, compressed) # rest) s =
     (case add_entry entry compressed s of
        (Inl e, s') \<Rightarrow> (Inl e, s')
      | (Inr u, s') \<Rightarrow> add_entries rest s')"

definition create :: "string \<Rightarrow> bool \<Rightarrow> bytes option \<Rightarrow> (bytes \<times> bool) list
    \<Rightarrow> (py_error + unit) \<times> OBT" where
  "create output overwrite disk meta =
     (case init_write overwrite disk (OBT_init output) of
        (Inl e, s) \<Rightarrow> (Inl e, s)
      | (Inr u, s) \<Rightarrow>
          (case add_entries meta s of
             (Inl e, s') \<Rightarrow> (Inl e, s')
           | (Inr u', s') \<Rightarrow> finalize_write s'))"

definition file_bytes :: "OBT \<Rightarrow> bytes option" where
  "file_bytes s = map_option content (fp s)"

section \<open>Vocabulary for the header of a file\<close>

text \<open>
  Row \<open>i\<close> of the header as \<open>load\<close> reads it: the 12 bytes at \<open>i * 12\<close>, unpacked
  into offset, size and flag; the record \<open>load\<close> binds from it; its size field; and
  whether its flag passes the check.
\<close>

definition header_row :: "bytes \<Rightarrow> nat \<Rightarrow> py_error + (int \<times> int \<times> int)" where
  "header_row data i = struct_unpack_III (take 12 (drop (i * 12) data))"

definition parsed_entry :: "bytes \<Rightarrow> nat \<Rightarrow> OBTEntry" where
  "parsed_entry data i =
     (case header_row data i of
        Inl e \<Rightarrow> OBTEntry_init
      | Inr (off, sz, c) \<Rightarrow> OBTEntry_load off sz c OBTEntry_init)"

definition row_size :: "bytes \<Rightarrow> nat \<Rightarrow> int" where
  "row_size data i = (case header_row data i of Inl e \<Rightarrow> 0 | Inr (off, sz, c) \<Rightarrow> sz)"

definition row_flag :: "bytes \<Rightarrow> nat \<Rightarrow> int" where
  "row_flag data i = (case header_row data i of Inl e \<Rightarrow> -1 | Inr (off, sz, c) \<Rightarrow> c)"

text \<open>
  What \<open>load\<close> guarantees of the records it binds: the fields come out of
  \<open>struct.unpack\<close> as unsigned integers, so no offset and no size is negative.
\<close>

definition entries_unsigned :: "OBT \<Rightarrow> bool" where
  "entries_unsigned s = list_all (\<lambda>(k, e). 0 \<le> offset e \<and> 0 \<le> size_e e) (entries s)"

section \<open>Vocabulary for the writer\<close>

text \<open>
  For a list \<open>meta\<close> of payloads with their flags, in the order of the \<open>add_entry\<close>
  calls: the record \<open>add_entry\<close> stores for one of them, the dictionary after all the
  calls, the value of \<open>cur_off\<close> when \<open>finalize_write\<close> reaches row \<open>i\<close>, the 12 bytes it
  packs for that row, and the whole file: the rows, then the payloads.
\<close>

definition new_entry :: "bytes \<Rightarrow> bool \<Rightarrow> OBTEntry" where
  "new_entry entry compressed =
     OBTEntry_init\<lparr>size_e := int (length entry), raw_entry := Some entry,
                   is_compressed := (if compressed then 1 else 0)\<rparr>"

definition entry_table :: "(bytes \<times> bool) list \<Rightarrow> (int \<times> OBTEntry) list" where
  "entry_table meta =
     map (\<lambda>i. (int i, new_entry (fst (meta ! i)) (snd (meta ! i)))) [0..<length meta]"

definition payload_off :: "(bytes \<times> bool) list \<Rightarrow> nat \<Rightarrow> nat" where
  "payload_off meta i = length meta * 12 + sum_list (map (length \<circ> fst) (take i meta))"

definition row_bytes :: "(bytes \<times> bool) list \<Rightarrow> nat \<Rightarrow> bytes" where
  "row_bytes meta i =
     (case struct_pack_III (int (payload_off meta i)) (int (length (fst (meta ! i))))
             (if snd (meta ! i) then 1 else 0) of
        Inl e \<Rightarrow> []
      | Inr row \<Rightarrow> row)"

definition archive_bytes :: "(bytes \<times> bool) list \<Rightarrow> bytes" where
  "archive_bytes meta =
     concat (map (row_bytes meta) [0..<length meta]) @ concat (map fst meta)"

section \<open>Packing and unpacking\<close>

lemma uint_byte_of_int: "uint (word_of_int v :: byte) = v mod 256"
  by (simp add: uint_word_of_int_eq take_bit_eq_mod)

lemma from_bytes_pack_I:
  assumes "0 \<le> v" "v \<le> 4294967295"
  shows "from_bytes_little [word_of_int v, word_of_int (v div 256),
                word_of_int (v div 65536), word_of_int (v div 16777216)] = v"
proof -
  define q1 where "q1 = v div 256"
  define q2 where "q2 = q1 div 256"
  define q3 where "q3 = q2 div 256"
  have e1: "v div 65536 = q2"
    using zdiv_zmult2_eq[of 256 v 256] by (simp add: q1_def q2_def)
  have e2: "v div 16777216 = q3"
    using zdiv_zmult2_eq[of 256 v 65536] e1 by (simp add: q3_def)
  have "q3 < 256" "0 \<le> q3" using assms unfolding e2[symmetric] by simp_all
  then have a: "q3 mod 256 = q3" by simp
  define r0 where "r0 = v mod 256"
  define r1 where "r1 = q1 mod 256"
  define r2 where "r2 = q2 mod 256"
  have b: "q2 = 256 * q3 + r2" unfolding q3_def r2_def by simp
  have c: "q1 = 256 * q2 + r1" unfolding q2_def r1_def by simp
  have d: "v = 256 * q1 + r0" unfolding q1_def r0_def by simp
  have "from_bytes_little [word_of_int v, word_of_int q1, word_of_int q2, word_of_int q3]
        = r0 + 256 * (r1 + 256 * (r2 + 256 * q3))"
    by (simp add: uint_byte_of_int a r0_def r1_def r2_def)
  also have "\<dots> = v" using b c d by simp
  finally show ?thesis by (simp add: e1 e2 q1_def[symmetric])
qed

lemma from_bytes_little_nonneg: "0 \<le> from_bytes_little bs"
  by (induction bs) simp_all

lemma pack_I_Inr:
  "pack_I v = Inr bs \<Longrightarrow>
     0 \<le> v \<and> v \<le> 4294967295 \<and> length bs = 4 \<and> from_bytes_little bs = v"
  unfolding pack_I_def using from_bytes_pack_I[of v] by (auto split: if_splits)

lemma struct_pack_III_Inr:
  assumes "struct_pack_III a b c = Inr row"
  shows "length row = 12" "struct_unpack_III row = Inr (a, b, c)"
    "from_bytes_little (take 4 row) = a"
    "0 \<le> a" "a \<le> 4294967295" "0 \<le> b" "b \<le> 4294967295" "0 \<le> c" "c \<le> 4294967295"
proof -
  from assms obtain x y z where x: "pack_I a = Inr x" and y: "pack_I b = Inr y"
    and z: "pack_I c = Inr z" and row: "row = x @ y @ z"
    unfolding struct_pack_III_def by (auto split: sum.splits)
  note px = pack_I_Inr[OF x] and py = pack_I_Inr[OF y] and pz = pack_I_Inr[OF z]
  show "length row = 12" using px py pz row by simp
  show "struct_unpack_III row = Inr (a, b, c)"
    using px py pz row by (simp add: struct_unpack_III_def)
  show "from_bytes_little (take 4 row) = a" using px row by simp
  show "0 \<le> a" "a \<le> 4294967295" "0 \<le> b" "b \<le> 4294967295" "0 \<le> c" "c \<le> 4294967295"
    using px py pz by simp_all
qed

lemma struct_pack_III_ok:
  assumes "0 \<le> a" "a \<le> 4294967295" "0 \<le> b" "b \<le> 4294967295" "0 \<le> c" "c \<le> 4294967295"
  shows "\<exists>row. struct_pack_III a b c = Inr row"
  using assms unfolding struct_pack_III_def pack_I_def by simp

lemma struct_pack_III_bad:
  assumes "\<not> (0 \<le> a \<and> a \<le> 4294967295 \<and> 0 \<le> b \<and> b \<le> 4294967295 \<and> 0 \<le> c \<and> c \<le> 4294967295)"
  shows "struct_pack_III a b c = Inl StructError"
  using assms unfolding struct_pack_III_def pack_I_def by (auto split: sum.splits)

section \<open>Reading the header\<close>

lemma header_row_in_range:
  assumes "(i + 1) * 12 \<le> length data"
  shows "\<exists>off sz c. header_row data i = Inr (off, sz, c)"
  using assms by (simp add: header_row_def struct_unpack_III_def)

lemma fp_seek_row: "fp_seek (int i * 12) h = Inr (h\<lparr>pos := i * 12\<rparr>)"
  by (simp add: fp_seek_def nat_mult_distrib)

lemma load_entry_mode: "mode (snd (load_entry i s)) = mode s"
  by (simp add: load_entry_def fp_seek_def fp_read_def Let_def split: option.splits sum.splits prod.splits)

lemma load_entry_file_bytes:
  "file_bytes s = Some data \<Longrightarrow> file_bytes (snd (load_entry i s)) = Some data"
  by (auto simp add: file_bytes_def load_entry_def fp_seek_def fp_read_def Let_def split: option.splits sum.splits prod.splits)

lemma load_entry_ok:
  assumes "file_bytes s = Some data" "header_row data i = Inr (off, sz, c)" "c \<in> {0, 1}"
  shows "fst (load_entry i s) = Inr ()"
    "entries (snd (load_entry i s)) = AList.update (int i) (parsed_entry data i) (entries s)"
    "total_size (snd (load_entry i s)) = total_size s + row_size data i"
  using assms
  by (auto simp add: file_bytes_def load_entry_def fp_seek_row fp_read_def Let_def header_row_def
      parsed_entry_def row_size_def split: option.splits sum.splits prod.splits)

lemma load_entry_bad:
  assumes "file_bytes s = Some data" "header_row data i = Inr (off, sz, c)" "c \<notin> {0, 1}"
  shows "fst (load_entry i s) = Inl (OBTError ''Unknown compression method'')"
    "entries (snd (load_entry i s)) = entries s"
    "total_size (snd (load_entry i s)) = total_size s"
  using assms
  by (auto simp add: file_bytes_def load_entry_def fp_seek_row fp_read_def Let_def header_row_def
      split: option.splits sum.splits prod.splits)

lemma load_entries_mode: "mode (snd (load_entries rows s)) = mode s"
proof (induction rows arbitrary: s)
  case Nil
  show ?case by simp
next
  case (Cons i rows)
  show ?case
  proof (cases "load_entry i s")
    case (Pair r s')
    then have m: "mode s' = mode s" using load_entry_mode[of i s] by simp
    show ?thesis
    proof (cases r)
      case (Inl e)
      then show ?thesis using Pair m by simp
    next
      case (Inr u)
      then show ?thesis using Pair m Cons.IH[of s'] by simp
    qed
  qed
qed

lemma load_entries_file_bytes:
  "file_bytes s = Some data \<Longrightarrow> file_bytes (snd (load_entries rows s)) = Some data"
proof (induction rows arbitrary: s)
  case Nil
  then show ?case by simp
next
  case (Cons i rows)
  show ?case
  proof (cases "load_entry i s")
    case (Pair r s')
    then have m: "file_bytes s' = Some data"
      using load_entry_file_bytes[OF Cons.prems, of i] by simp
    show ?thesis
    proof (cases r)
      case (Inl e)
      then show ?thesis using Pair m by simp
    next
      case (Inr u)
      then show ?thesis using Pair Cons.IH[OF m] by simp
    qed
  qed
qed

text \<open>All rows pass the flag check: the loop binds every record and sums the sizes.\<close>

lemma load_entries_ok:
  assumes "file_bytes s = Some data"
    and "\<forall>i\<in>set rows. \<exists>off sz c. header_row data i = Inr (off, sz, c) \<and> c \<in> {0, 1}"
  shows "fst (load_entries rows s) = Inr ()
       \<and> entries (snd (load_entries rows s))
           = fold (\<lambda>i. AList.update (int i) (parsed_entry data i)) rows (entries s)
       \<and> total_size (snd (load_entries rows s)) = total_size s + sum_list (map (row_size data) rows)"
  using assms
proof (induction rows arbitrary: s)
  case Nil
  then show ?case by simp
next
  case (Cons i rows)
  from Cons.prems(2) obtain off sz c where row: "header_row data i = Inr (off, sz, c)" "c \<in> {0, 1}"
    by auto
  obtain r s' where step: "load_entry i s = (r, s')" by (cases "load_entry i s")
  have r: "r = Inr ()" using load_entry_ok(1)[OF Cons.prems(1) row] step by simp
  have e: "entries s' = AList.update (int i) (parsed_entry data i) (entries s)"
    using load_entry_ok(2)[OF Cons.prems(1) row] step by simp
  have t: "total_size s' = total_size s + row_size data i"
    using load_entry_ok(3)[OF Cons.prems(1) row] step by simp
  have f: "file_bytes s' = Some data"
    using load_entry_file_bytes[OF Cons.prems(1), of i] step by simp
  have rest: "\<forall>i\<in>set rows. \<exists>off sz c. header_row data i = Inr (off, sz, c) \<and> c \<in> {0, 1}"
    using Cons.prems(2) by simp
  show ?case using Cons.IH[OF f rest] step r e t by simp
qed

text \<open>Some row fails the flag check: the loop stops there with the plain \<open>OBTError\<close>.\<close>

lemma load_entries_bad:
  assumes "file_bytes s = Some data"
    and "\<forall>i\<in>set rows. \<exists>off sz c. header_row data i = Inr (off, sz, c)"
    and "\<exists>i\<in>set rows. row_flag data i \<notin> {0, 1}"
  shows "fst (load_entries rows s) = Inl (OBTError ''Unknown compression method'')"
  using assms
proof (induction rows arbitrary: s)
  case Nil
  then show ?case by simp
next
  case (Cons i rows)
  from Cons.prems(2) obtain off sz c where row: "header_row data i = Inr (off, sz, c)"
    by auto
  obtain r s' where step: "load_entry i s = (r, s')" by (cases "load_entry i s")
  have f: "file_bytes s' = Some data"
    using load_entry_file_bytes[OF Cons.prems(1), of i] step by simp
  show ?case
  proof (cases "c \<in> {0, 1}")
    case False
    then show ?thesis using load_entry_bad(1)[OF Cons.prems(1) row] step by simp
  next
    case True
    then have r: "r = Inr ()" using load_entry_ok(1)[OF Cons.prems(1) row] step by simp
    have "row_flag data i \<in> {0, 1}" using True row by (simp add: row_flag_def)
    then have ex: "\<exists>i\<in>set rows. row_flag data i \<notin> {0, 1}" using Cons.prems(3) by auto
    have all: "\<forall>i\<in>set rows. \<exists>off sz c. header_row data i = Inr (off, sz, c)"
      using Cons.prems(2) by simp
    show ?thesis using Cons.IH[OF f all ex] step r by simp
  qed
qed

text \<open>\<open>load\<close> on an unopened archive and a file that passes the two header checks.\<close>

lemma load_unfold:
  assumes "mode s = OBT_None" "4 \<le> length data"
    and "from_bytes_little (take 4 data) \<le> int (length data)"
  shows "load (Some data) s =
     (case load_entries [0..<nat (from_bytes_little (take 4 data) div 12)]
             (s\<lparr>fp := Some \<lparr>content = data, pos = 4, writable = False\<rparr>,
                total_size := total_size s + from_bytes_little (take 4 data)\<rparr>) of
        (Inl e, s3) \<Rightarrow> (Inl e, s3)
      | (Inr u, s3) \<Rightarrow>
          if int (length data) < total_size s3
          then (Inl (InvalidOBTFileError ''Not enough data in file''), s3)
          else (Inr (), s3\<lparr>mode := OBT_Read\<rparr>))"
  using assms by (simp add: load_def fp_seek_def fp_read_def Let_def)

lemma header_rows_in_range:
  assumes "h \<le> int (length data)"
  shows "\<forall>i\<in>set [0..<nat (h div 12)]. \<exists>off sz c. header_row data i = Inr (off, sz, c)"
proof
  fix i assume "i \<in> set [0..<nat (h div 12)]"
  then have "int i < h div 12" by auto
  define q where "q = h div 12"
  define r where "r = h mod 12"
  have "h = 12 * q + r" "0 \<le> r" unfolding q_def r_def by simp_all
  moreover have "int i + 1 \<le> q" using \<open>int i < h div 12\<close> unfolding q_def by simp
  ultimately have "(int i + 1) * 12 \<le> h" by simp
  then have "int ((i + 1) * 12) \<le> int (length data)" using assms by simp
  then have "(i + 1) * 12 \<le> length data" by (simp only: of_nat_le_iff)
  then show "\<exists>off sz c. header_row data i = Inr (off, sz, c)" by (rule header_row_in_range)
qed

lemma update_fresh_key: "k \<notin> fst ` set al \<Longrightarrow> AList.update k v al = al @ [(k, v)]"
  by (induction al) auto

lemma fold_update_upt:
  "fold (\<lambda>i. AList.update (int i) (f i)) [m..<m + k] (map (\<lambda>i. (int i, f i)) [0..<m])
     = map (\<lambda>i. (int i, f i)) [0..<m + k]"
proof (induction k arbitrary: m)
  case 0
  show ?case by simp
next
  case (Suc k)
  have fresh: "int m \<notin> fst ` set (map (\<lambda>i. (int i, f i)) [0..<m])" by auto
  have step: "AList.update (int m) (f m) (map (\<lambda>i. (int i, f i)) [0..<m])
              = map (\<lambda>i. (int i, f i)) [0..<Suc m]"
    using update_fresh_key[OF fresh] by simp
  have "[m..<m + Suc k] = m # [Suc m..<Suc m + k]" by (simp add: upt_conv_Cons)
  then show ?case using Suc.IH[of "Suc m"] step by simp
qed

lemma fold_update_from_empty:
  "fold (\<lambda>i. AList.update (int i) (f i)) [0..<n] [] = map (\<lambda>i. (int i, f i)) [0..<n]"
  using fold_update_upt[of f 0 n] by simp

lemma row_flag_ok:
  assumes "header_row data i = Inr (off, sz, c)"
  shows "row_flag data i = c"
  using assms by (simp add: row_flag_def)

text \<open>\<open>load\<close> of a fresh archive on a file passing every check up to the last one.\<close>

lemma load_rows_ok:
  assumes "mode s = OBT_None" "4 \<le> length data"
    and "from_bytes_little (take 4 data) \<le> int (length data)"
    and "\<forall>i < nat (from_bytes_little (take 4 data) div 12). row_flag data i \<in> {0, 1}"
  shows "\<exists>s3. load_entries [0..<nat (from_bytes_little (take 4 data) div 12)]
             (s\<lparr>fp := Some \<lparr>content = data, pos = 4, writable = False\<rparr>,
                total_size := total_size s + from_bytes_little (take 4 data)\<rparr>) = (Inr (), s3)
        \<and> entries s3 = fold (\<lambda>i. AList.update (int i) (parsed_entry data i))
                          [0..<nat (from_bytes_little (take 4 data) div 12)] (entries s)
        \<and> total_size s3 = total_size s + from_bytes_little (take 4 data)
            + sum_list (map (row_size data) [0..<nat (from_bytes_little (take 4 data) div 12)])
        \<and> mode s3 = OBT_None \<and> file_bytes s3 = Some data"
proof -
  define n where "n = nat (from_bytes_little (take 4 data) div 12)"
  define s2 where "s2 = s\<lparr>fp := Some \<lparr>content = data, pos = 4, writable = False\<rparr>,
                total_size := total_size s + from_bytes_little (take 4 data)\<rparr>"
  have fb: "file_bytes s2 = Some data" by (simp add: s2_def file_bytes_def)
  have rows: "\<forall>i\<in>set [0..<n]. \<exists>off sz c. header_row data i = Inr (off, sz, c) \<and> c \<in> {0, 1}"
  proof
    fix i assume i: "i \<in> set [0..<n]"
    then obtain off sz c where r: "header_row data i = Inr (off, sz, c)"
      using header_rows_in_range[OF assms(3)] unfolding n_def by blast
    have "row_flag data i \<in> {0, 1}" using assms(4) i unfolding n_def by simp
    then show "\<exists>off sz c. header_row data i = Inr (off, sz, c) \<and> c \<in> {0, 1}"
      using r row_flag_ok[OF r] by simp
  qed
  obtain r s3 where l: "load_entries [0..<n] s2 = (r, s3)" by (cases "load_entries [0..<n] s2")
  have "r = Inr ()" using load_entries_ok[OF fb rows] l by simp
  moreover have "entries s3 = fold (\<lambda>i. AList.update (int i) (parsed_entry data i)) [0..<n] (entries s)"
    using load_entries_ok[OF fb rows] l by (simp add: s2_def)
  moreover have "total_size s3 = total_size s + from_bytes_little (take 4 data)
            + sum_list (map (row_size data) [0..<n])"
    using load_entries_ok[OF fb rows] l by (simp add: s2_def)
  moreover have "mode s3 = OBT_None" using load_entries_mode[of "[0..<n]" s2] l assms(1)
    by (simp add: s2_def)
  moreover have "file_bytes s3 = Some data" using load_entries_file_bytes[OF fb, of "[0..<n]"] l
    by simp
  ultimately show ?thesis using l unfolding n_def s2_def by simp
qed

lemma load_mode_None:
  assumes "mode s = OBT_None" "fst (load disk s) \<noteq> Inr ()"
  shows "mode (snd (load disk s)) = OBT_None"
proof (cases disk)
  case None
  then show ?thesis using assms by (simp add: load_def)
next
  case (Some data)
  show ?thesis
  proof (cases "4 \<le> length data \<and> from_bytes_little (take 4 data) \<le> int (length data)")
    case False
    then show ?thesis using assms Some
      by (auto simp add: load_def fp_seek_def fp_read_def Let_def)
  next
    case True
    define s2 where "s2 = s\<lparr>fp := Some \<lparr>content = data, pos = 4, writable = False\<rparr>,
                total_size := total_size s + from_bytes_little (take 4 data)\<rparr>"
    define rows where "rows = [0..<nat (from_bytes_little (take 4 data) div 12)]"
    obtain r s3 where l: "load_entries rows s2 = (r, s3)" by (cases "load_entries rows s2")
    have m: "mode s3 = OBT_None" using load_entries_mode[of rows s2] l assms(1)
      by (simp add: s2_def)
    have u: "load (Some data) s = (case load_entries rows s2 of
        (Inl e, s3) \<Rightarrow> (Inl e, s3)
      | (Inr u, s3) \<Rightarrow>
          if int (length data) < total_size s3
          then (Inl (InvalidOBTFileError ''Not enough data in file''), s3)
          else (Inr (), s3\<lparr>mode := OBT_Read\<rparr>))"
      using load_unfold[OF assms(1)] True unfolding s2_def rows_def by simp
    show ?thesis using assms(2) m by (cases r) (auto simp add: Some u l split: if_splits)
  qed
qed

lemma load_mode_Read:
  assumes "mode s = OBT_None" "fst (load disk s) = Inr ()"
  shows "mode (snd (load disk s)) = OBT_Read"
  using assms
  by (auto simp add: load_def fp_seek_def fp_read_def Let_def
      split: option.splits if_splits prod.splits sum.splits)

section \<open>Writing\<close>

lemma obt_write_Inr:
  assumes "obt_write d s = (Inr u, s')"
  shows "\<exists>h. fp s = Some h \<and> writable h
           \<and> s' = s\<lparr>fp := Some (h\<lparr>content := take (pos h) (content h)
                              @ replicate (pos h - length (content h)) 0
                              @ d
                              @ drop (pos h + length d) (content h),
                  pos := pos h + length d\<rparr>)\<rparr>"
  using assms by (auto simp add: obt_write_def fp_write_def split: option.splits if_splits)

text \<open>A write at or after position \<open>k\<close> keeps the first \<open>k\<close> bytes of the file.\<close>

lemma obt_write_prefix:
  assumes "obt_write d s = (Inr u, s')" "fp s = Some h" "k \<le> pos h" "k \<le> length (content h)"
  shows "\<exists>h'. fp s' = Some h' \<and> k \<le> pos h' \<and> k \<le> length (content h')
           \<and> take k (content h') = take k (content h)"
proof -
  from obt_write_Inr[OF assms(1)] assms(2)
  have s': "s' = s\<lparr>fp := Some (h\<lparr>content := take (pos h) (content h)
                              @ replicate (pos h - length (content h)) 0
                              @ d
                              @ drop (pos h + length d) (content h),
                  pos := pos h + length d\<rparr>)\<rparr>" by auto
  show ?thesis using assms(3,4) unfolding s' by simp
qed

lemma write_header_Cons_Inr:
  assumes "write_header (i # rows) cur s = (Inr u, s')"
  shows "\<exists>ent row s1. map_of (entries s) (int i) = Some ent
           \<and> struct_pack_III cur (size_e ent) (is_compressed ent) = Inr row
           \<and> obt_write row s = (Inr (), s1)
           \<and> write_header rows (cur + size_e ent) s1 = (Inr u, s')"
  using assms by (auto split: option.splits sum.splits prod.splits)

lemma write_entries_Cons_Inr:
  assumes "write_entries (i # rows) s = (Inr u, s')"
  shows "\<exists>ent d s1. map_of (entries s) (int i) = Some ent \<and> raw_entry ent = Some d
           \<and> obt_write d s = (Inr (), s1)
           \<and> write_entries rows s1 = (Inr u, s')"
  using assms by (auto split: option.splits sum.splits prod.splits)

lemma write_header_prefix:
  assumes "write_header rows cur s = (Inr u, s')" "fp s = Some h" "k \<le> pos h"
    "k \<le> length (content h)"
  shows "\<exists>h'. fp s' = Some h' \<and> k \<le> pos h' \<and> k \<le> length (content h')
           \<and> take k (content h') = take k (content h)"
  using assms
proof (induction rows arbitrary: cur s h)
  case Nil
  then show ?case by simp
next
  case (Cons i rows)
  from write_header_Cons_Inr[OF Cons.prems(1)] obtain ent :: OBTEntry and row s1 where
    w: "obt_write row s = (Inr (), s1)"
    and r: "write_header rows (cur + size_e ent) s1 = (Inr u, s')"
    by blast
  from obt_write_prefix[OF w Cons.prems(2,3,4)] obtain h1 where
    h1: "fp s1 = Some h1" "k \<le> pos h1" "k \<le> length (content h1)"
      "take k (content h1) = take k (content h)" by blast
  from Cons.IH[OF r h1(1,2,3)] h1(4) show ?case by auto
qed

lemma write_entries_prefix:
  assumes "write_entries rows s = (Inr u, s')" "fp s = Some h" "k \<le> pos h"
    "k \<le> length (content h)"
  shows "\<exists>h'. fp s' = Some h' \<and> k \<le> pos h' \<and> k \<le> length (content h')
           \<and> take k (content h') = take k (content h)"
  using assms
proof (induction rows arbitrary: s h)
  case Nil
  then show ?case by simp
next
  case (Cons i rows)
  from write_entries_Cons_Inr[OF Cons.prems(1)] obtain d s1 where
    w: "obt_write d s = (Inr (), s1)"
    and r: "write_entries rows s1 = (Inr u, s')"
    by blast
  from obt_write_prefix[OF w Cons.prems(2,3,4)] obtain h1 where
    h1: "fp s1 = Some h1" "k \<le> pos h1" "k \<le> length (content h1)"
      "take k (content h1) = take k (content h)" by blast
  from Cons.IH[OF r h1(1,2,3)] h1(4) show ?case by auto
qed

text \<open>A successful \<open>finalize_write\<close> starts the file with the header size.\<close>

lemma finalize_write_first_row:
  assumes "finalize_write s = (Inr u, s')"
  shows "mode s = OBT_Write \<and> entries s \<noteq> []
       \<and> (\<exists>f ent. file_bytes s' = Some f \<and> 12 \<le> length f
             \<and> from_bytes_little (take 4 f) = int (length (entries s)) * 12
             \<and> map_of (entries s) 0 = Some ent
             \<and> header_row f 0
                 = Inr (int (length (entries s)) * 12, size_e ent, is_compressed ent))"
proof -
  define n where "n = length (entries s)"
  from assms have m: "mode s = OBT_Write" and ne: "entries s \<noteq> []"
    by (auto simp add: finalize_write_def split: if_splits)
  from assms m ne obtain h where h: "fp s = Some h"
    by (auto simp add: finalize_write_def Let_def split: option.splits)
  define s0 where "s0 = s\<lparr>fp := Some (h\<lparr>pos := 0\<rparr>)\<rparr>"
  from assms m ne h obtain s1 u1 where
    wh: "write_header [0..<n] (int n * 12) s0 = (Inr u1, s1)"
    and we: "write_entries [0..<n] s1 = (Inr u, s')"
    by (auto simp add: finalize_write_def Let_def fp_seek_def n_def s0_def
        split: sum.splits prod.splits)
  have n: "[0..<n] = 0 # [1..<n]" using ne unfolding n_def by (simp add: upt_conv_Cons)
  from write_header_Cons_Inr[OF wh[unfolded n]] obtain ent :: OBTEntry and row sA where
    e0: "map_of (entries s0) (int 0) = Some ent"
    and p: "struct_pack_III (int n * 12) (size_e ent) (is_compressed ent) = Inr row"
    and w: "obt_write row s0 = (Inr (), sA)"
    and r: "write_header [1..<n] (int n * 12 + size_e ent) sA = (Inr u1, s1)"
    by blast
  have lr: "length row = 12" by (rule struct_pack_III_Inr(1)[OF p])
  from obt_write_Inr[OF w] obtain hA where
    hA: "fp sA = Some hA" "pos hA = 12" "content hA = row @ drop 12 (content h)"
    by (auto simp add: s0_def lr)
  have a: "12 \<le> pos hA" "12 \<le> length (content hA)" using hA lr by simp_all
  from write_header_prefix[OF r hA(1) a] obtain h1 where
    h1: "fp s1 = Some h1" "12 \<le> pos h1" "12 \<le> length (content h1)"
      "take 12 (content h1) = take 12 (content hA)" by blast
  from write_entries_prefix[OF we h1(1,2,3)] obtain h' where
    h': "fp s' = Some h'" "12 \<le> length (content h')"
      "take 12 (content h') = take 12 (content h1)" by blast
  have t12: "take 12 (content h') = row" using h'(3) h1(4) hA(3) lr by simp
  have "take 4 (content h') = take 4 (take 12 (content h'))" by simp
  also have "\<dots> = take 4 row" unfolding t12 ..
  finally have f4: "from_bytes_little (take 4 (content h')) = int n * 12"
    using struct_pack_III_Inr(3)[OF p] by simp
  have hr: "header_row (content h') 0 = Inr (int n * 12, size_e ent, is_compressed ent)"
    using struct_pack_III_Inr(2)[OF p] t12 by (simp add: header_row_def)
  have e: "map_of (entries s) 0 = Some ent" using e0 by (simp add: s0_def)
  show ?thesis using m ne h' f4 hr e unfolding n_def by (simp add: file_bytes_def)
qed

section \<open>The dictionary the writer builds\<close>

lemma map_of_indexed:
  "map_of (map (\<lambda>i. (int i, f i)) [0..<n]) k = Some e \<longleftrightarrow> (\<exists>i<n. k = int i \<and> e = f i)"
proof -
  have "map fst (map (\<lambda>i. (int i, f i)) [0..<n]) = map int [0..<n]" by simp
  then have d: "distinct (map fst (map (\<lambda>i. (int i, f i)) [0..<n]))"
    by (simp add: distinct_map inj_on_def)
  show ?thesis unfolding map_of_eq_Some_iff[OF d] by auto
qed

lemma entry_table_lookup:
  assumes "i < length meta"
  shows "map_of (entry_table meta) (int i) = Some (new_entry (fst (meta ! i)) (snd (meta ! i)))"
  unfolding entry_table_def map_of_indexed using assms by auto

lemma entry_table_snoc:
  "entry_table (pre @ [x])
     = entry_table pre @ [(int (length pre), new_entry (fst x) (snd x))]"
  by (simp add: entry_table_def nth_append)

lemma entry_table_fresh: "int (length pre) \<notin> fst ` set (entry_table pre)"
  by (auto simp add: entry_table_def)

lemma length_entry_table: "length (entry_table meta) = length meta"
  by (simp add: entry_table_def)

lemma add_entry_table:
  assumes "mode s = OBT_Write" "entries s = entry_table pre" "entry_offset s = int (length pre)"
  shows "add_entry entry compressed s
           = (Inr (), s\<lparr>entries := entry_table (pre @ [(entry, compressed)]),
                         entry_offset := int (length (pre @ [(entry, compressed)]))\<rparr>)"
  using assms update_fresh_key[OF entry_table_fresh, of pre "new_entry entry compressed"]
  by (simp add: add_entry_def frombytes_def OBTEntry_init_def new_entry_def entry_table_snoc)

lemma add_entries_table:
  assumes "mode s = OBT_Write" "entries s = entry_table pre" "entry_offset s = int (length pre)"
  shows "add_entries meta s
           = (Inr (), s\<lparr>entries := entry_table (pre @ meta),
                         entry_offset := int (length (pre @ meta))\<rparr>)"
  using assms
proof (induction meta arbitrary: pre s)
  case Nil
  then show ?case by simp
next
  case (Cons x meta)
  obtain entry compressed where x: "x = (entry, compressed)" by (cases x)
  define s1 where "s1 = s\<lparr>entries := entry_table (pre @ [(entry, compressed)]),
                         entry_offset := int (length (pre @ [(entry, compressed)]))\<rparr>"
  have a: "add_entry entry compressed s = (Inr (), s1)"
    unfolding s1_def by (rule add_entry_table[OF Cons.prems])
  have m: "mode s1 = OBT_Write" "entries s1 = entry_table (pre @ [(entry, compressed)])"
    "entry_offset s1 = int (length (pre @ [(entry, compressed)]))"
    using Cons.prems(1) by (simp_all add: s1_def)
  show ?case using Cons.IH[OF m] a unfolding x by (simp add: s1_def)
qed

section \<open>The file the writer produces\<close>

text \<open>A write at the end of the file appends.\<close>

lemma obt_write_append:
  assumes "fp s = Some h" "writable h" "pos h = length (content h)"
  shows "obt_write d s
           = (Inr (), s\<lparr>fp := Some (h\<lparr>content := content h @ d,
                                        pos := length (content h) + length d\<rparr>)\<rparr>)"
  using assms by (simp add: obt_write_def fp_write_def)

lemma payload_off_Suc:
  assumes "k < length meta"
  shows "payload_off meta (Suc k) = payload_off meta k + length (fst (meta ! k))"
  using assms by (simp add: payload_off_def take_Suc_conv_app_nth)

lemma payload_off_0: "payload_off meta 0 = length meta * 12"
  by (simp add: payload_off_def)

lemma row_bytes_pack:
  assumes "i < length meta"
    and "\<forall>i<length meta. int (payload_off meta i) \<le> 4294967295
           \<and> int (length (fst (meta ! i))) \<le> 4294967295"
  shows "struct_pack_III (int (payload_off meta i)) (int (length (fst (meta ! i))))
           (if snd (meta ! i) then 1 else 0) = Inr (row_bytes meta i)"
proof -
  have "\<exists>row. struct_pack_III (int (payload_off meta i)) (int (length (fst (meta ! i))))
           (if snd (meta ! i) then 1 else 0) = Inr row"
    using assms by (intro struct_pack_III_ok) auto
  then show ?thesis by (auto simp add: row_bytes_def)
qed

lemma write_header_table:
  assumes "entries s = entry_table meta" "fp s = Some h" "writable h"
    "pos h = length (content h)" "k \<le> length meta"
    and "\<forall>i<length meta. int (payload_off meta i) \<le> 4294967295
           \<and> int (length (fst (meta ! i))) \<le> 4294967295"
  shows "write_header [k..<length meta] (int (payload_off meta k)) s
           = (Inr (), s\<lparr>fp := Some (h\<lparr>content := content h
                                           @ concat (map (row_bytes meta) [k..<length meta]),
                                        pos := length (content h)
                                           + length (concat (map (row_bytes meta)
                                                                 [k..<length meta]))\<rparr>)\<rparr>)"
  using assms(1-5)
proof (induction "length meta - k" arbitrary: k s h)
  case 0
  then show ?case by simp
next
  case (Suc d)
  then have k: "k < length meta" by simp
  have up: "[k..<length meta] = k # [Suc k..<length meta]" using k by (simp add: upt_conv_Cons)
  have e: "map_of (entries s) (int k) = Some (new_entry (fst (meta ! k)) (snd (meta ! k)))"
    unfolding Suc.prems(1) by (rule entry_table_lookup[OF k])
  have p: "struct_pack_III (int (payload_off meta k)) (int (length (fst (meta ! k))))
           (if snd (meta ! k) then 1 else 0) = Inr (row_bytes meta k)"
    by (rule row_bytes_pack[OF k assms(6)])
  define h1 where "h1 = h\<lparr>content := content h @ row_bytes meta k,
                           pos := length (content h) + length (row_bytes meta k)\<rparr>"
  define s1 where "s1 = s\<lparr>fp := Some h1\<rparr>"
  have w: "obt_write (row_bytes meta k) s = (Inr (), s1)"
    unfolding s1_def h1_def by (rule obt_write_append[OF Suc.prems(2,3,4)])
  have d: "d = length meta - Suc k" using Suc.hyps(2) by simp
  have i1: "entries s1 = entry_table meta" "fp s1 = Some h1" "writable h1"
    "pos h1 = length (content h1)" "Suc k \<le> length meta"
    using Suc.prems k by (simp_all add: s1_def h1_def)
  have off: "int (payload_off meta k) + int (length (fst (meta ! k)))
               = int (payload_off meta (Suc k))"
    using payload_off_Suc[OF k] by simp
  have step: "write_header [k..<length meta] (int (payload_off meta k)) s
                = write_header [Suc k..<length meta] (int (payload_off meta (Suc k))) s1"
    unfolding up using e p w off by (simp add: new_entry_def)
  show ?case unfolding step Suc.hyps(1)[OF d i1] unfolding up
    by (simp add: s1_def h1_def)
qed

lemma write_entries_table:
  assumes "entries s = entry_table meta" "fp s = Some h" "writable h"
    "pos h = length (content h)" "k \<le> length meta"
  shows "write_entries [k..<length meta] s
           = (Inr (), s\<lparr>fp := Some (h\<lparr>content := content h
                                           @ concat (map (\<lambda>i. fst (meta ! i)) [k..<length meta]),
                                        pos := length (content h)
                                           + length (concat (map (\<lambda>i. fst (meta ! i))
                                                                 [k..<length meta]))\<rparr>)\<rparr>)"
  using assms
proof (induction "length meta - k" arbitrary: k s h)
  case 0
  then show ?case by simp
next
  case (Suc d)
  then have k: "k < length meta" by simp
  have up: "[k..<length meta] = k # [Suc k..<length meta]" using k by (simp add: upt_conv_Cons)
  have e: "map_of (entries s) (int k) = Some (new_entry (fst (meta ! k)) (snd (meta ! k)))"
    unfolding Suc.prems(1) by (rule entry_table_lookup[OF k])
  define h1 where "h1 = h\<lparr>content := content h @ fst (meta ! k),
                           pos := length (content h) + length (fst (meta ! k))\<rparr>"
  define s1 where "s1 = s\<lparr>fp := Some h1\<rparr>"
  have w: "obt_write (fst (meta ! k)) s = (Inr (), s1)"
    unfolding s1_def h1_def by (rule obt_write_append[OF Suc.prems(2,3,4)])
  have d: "d = length meta - Suc k" using Suc.hyps(2) by simp
  have i1: "entries s1 = entry_table meta" "fp s1 = Some h1" "writable h1"
    "pos h1 = length (content h1)" "Suc k \<le> length meta"
    using Suc.prems k by (simp_all add: s1_def h1_def)
  have step: "write_entries [k..<length meta] s = write_entries [Suc k..<length meta] s1"
    unfolding up using e w by (simp add: new_entry_def)
  show ?case unfolding step Suc.hyps(1)[OF d i1] unfolding up
    by (simp add: s1_def h1_def)
qed

lemma map_fst_nth: "map (\<lambda>i. fst (meta ! i)) [0..<length meta] = map fst meta"
  by (rule nth_equalityI) simp_all

text \<open>
  The call sequence of the writer succeeds when every offset and every size fits 32 bits,
  and leaves the rows followed by the payloads.
\<close>

lemma create_ok:
  assumes "meta \<noteq> []" "disk = None \<or> overwrite"
    and "\<forall>i<length meta. int (payload_off meta i) \<le> 4294967295
           \<and> int (length (fst (meta ! i))) \<le> 4294967295"
  shows "fst (create name overwrite disk meta) = Inr ()
       \<and> file_bytes (snd (create name overwrite disk meta)) = Some (archive_bytes meta)"
proof -
  define h0 where "h0 = \<lparr>content = ([] :: bytes), pos = 0, writable = True\<rparr>"
  define s0 where "s0 = (OBT_init name)\<lparr>fp := Some h0, mode := OBT_Write\<rparr>"
  have i: "init_write overwrite disk (OBT_init name) = (Inr (), s0)"
    using assms(2) by (auto simp add: init_write_def OBT_init_def s0_def h0_def)
  have p: "mode s0 = OBT_Write" "entries s0 = entry_table []" "entry_offset s0 = int (length ([] :: (bytes \<times> bool) list))"
    by (simp_all add: s0_def OBT_init_def entry_table_def)
  define s1 where "s1 = s0\<lparr>entries := entry_table meta, entry_offset := int (length meta)\<rparr>"
  have a: "add_entries meta s0 = (Inr (), s1)"
    using add_entries_table[OF p, of meta] by (simp add: s1_def)
  have q: "entries s1 = entry_table meta" "fp s1 = Some h0" "writable h0"
    "pos h0 = length (content h0)" "0 \<le> length meta" "mode s1 = OBT_Write"
    by (simp_all add: s1_def s0_def h0_def)
  define h2 where "h2 = h0\<lparr>content := content h0 @ concat (map (row_bytes meta) [0..<length meta]),
                           pos := length (content h0)
                              + length (concat (map (row_bytes meta) [0..<length meta]))\<rparr>"
  define s2 where "s2 = s1\<lparr>fp := Some h2\<rparr>"
  have wh: "write_header [0..<length meta] (int (length meta) * 12) s1 = (Inr (), s2)"
    using write_header_table[OF q(1-5) assms(3)]
    by (simp add: payload_off_0 s2_def h2_def)
  have r: "entries s2 = entry_table meta" "fp s2 = Some h2" "writable h2"
    "pos h2 = length (content h2)" "0 \<le> length meta"
    by (simp_all add: s2_def h2_def q h0_def)
  define h3 where "h3 = h2\<lparr>content := content h2
                               @ concat (map (\<lambda>i. fst (meta ! i)) [0..<length meta]),
                           pos := length (content h2)
                              + length (concat (map (\<lambda>i. fst (meta ! i)) [0..<length meta]))\<rparr>"
  have we: "write_entries [0..<length meta] s2 = (Inr (), s2\<lparr>fp := Some h3\<rparr>)"
    unfolding h3_def by (rule write_entries_table[OF r])
  have same: "s1\<lparr>fp := Some (h0\<lparr>pos := 0\<rparr>)\<rparr> = s1"
    by (simp add: s1_def s0_def h0_def)
  have f: "finalize_write s1 = (Inr (), s2\<lparr>fp := Some h3\<rparr>)"
    using assms(1) q(1,2,6) wh we
    by (simp add: finalize_write_def fp_seek_def Let_def length_entry_table same)
  have c: "create name overwrite disk meta = (Inr (), s2\<lparr>fp := Some h3\<rparr>)"
    by (simp add: create_def i a f)
  have "content h3 = archive_bytes meta"
    by (simp add: h3_def h2_def h0_def archive_bytes_def map_fst_nth)
  then show ?thesis unfolding c by (simp add: file_bytes_def)
qed

section \<open>Reading back what the writer produced\<close>

lemma concat_blocks_nth:
  assumes "\<forall>x\<in>set xs. length x = m" "i < length xs"
  shows "take m (drop (i * m) (concat xs @ rest)) = xs ! i"
  using assms
proof (induction xs arbitrary: i)
  case Nil
  then show ?case by simp
next
  case (Cons x xs)
  show ?case
  proof (cases i)
    case 0
    then show ?thesis using Cons.prems by simp
  next
    case (Suc j)
    have "drop (Suc j * m) (concat (x # xs) @ rest) = drop (j * m) (concat xs @ rest)"
      using Cons.prems(1) by simp
    then show ?thesis using Cons.IH[of j] Cons.prems Suc by simp
  qed
qed

lemma concat_nth_slice:
  assumes "i < length bs"
  shows "take (length (bs ! i)) (drop (sum_list (map length (take i bs))) (concat bs)) = bs ! i"
  using assms
proof (induction bs arbitrary: i)
  case Nil
  then show ?case by simp
next
  case (Cons b bs)
  show ?case
  proof (cases i)
    case 0
    then show ?thesis by simp
  next
    case (Suc j)
    then show ?thesis using Cons.IH[of j] Cons.prems by simp
  qed
qed

lemma length_concat_blocks:
  assumes "\<forall>i\<in>set rows. length (f i) = m"
  shows "length (concat (map f rows)) = m * length rows"
  using assms by (induction rows) simp_all

lemma row_bytes_unpack:
  assumes "i < length meta"
    and "\<forall>i<length meta. int (payload_off meta i) \<le> 4294967295
           \<and> int (length (fst (meta ! i))) \<le> 4294967295"
  shows "length (row_bytes meta i) = 12"
    and "struct_unpack_III (row_bytes meta i)
           = Inr (int (payload_off meta i), int (length (fst (meta ! i))),
                  if snd (meta ! i) then 1 else 0)"
  using struct_pack_III_Inr(1,2)[OF row_bytes_pack[OF assms]] by simp_all

lemma header_row_archive:
  assumes "i < length meta"
    and "\<forall>i<length meta. int (payload_off meta i) \<le> 4294967295
           \<and> int (length (fst (meta ! i))) \<le> 4294967295"
  shows "header_row (archive_bytes meta) i
           = Inr (int (payload_off meta i), int (length (fst (meta ! i))),
                  if snd (meta ! i) then 1 else 0)"
proof -
  have all: "\<forall>x\<in>set (map (row_bytes meta) [0..<length meta]). length x = 12"
    using row_bytes_unpack(1)[OF _ assms(2)] by auto
  have i: "i < length (map (row_bytes meta) [0..<length meta])" using assms(1) by simp
  have "take 12 (drop (i * 12) (archive_bytes meta)) = row_bytes meta i"
    unfolding archive_bytes_def using concat_blocks_nth[OF all i] assms(1) by simp
  then show ?thesis
    unfolding header_row_def using row_bytes_unpack(2)[OF assms] by simp
qed

lemma length_archive_bytes:
  assumes "\<forall>i<length meta. int (payload_off meta i) \<le> 4294967295
           \<and> int (length (fst (meta ! i))) \<le> 4294967295"
  shows "length (archive_bytes meta)
           = length meta * 12 + sum_list (map length (map fst meta))"
proof -
  have all: "\<forall>i\<in>set [0..<length meta]. length (row_bytes meta i) = 12"
    using row_bytes_unpack(1)[OF _ assms] by auto
  show ?thesis
    unfolding archive_bytes_def using length_concat_blocks[OF all]
    by (simp add: length_concat)
qed

lemma first4_archive:
  assumes "meta \<noteq> []"
    and "\<forall>i<length meta. int (payload_off meta i) \<le> 4294967295
           \<and> int (length (fst (meta ! i))) \<le> 4294967295"
  shows "4 \<le> length (archive_bytes meta)"
    and "from_bytes_little (take 4 (archive_bytes meta)) = int (length meta) * 12"
proof -
  have n: "0 < length meta" using assms(1) by simp
  have "12 \<le> length meta * 12" using assms(1) by (cases meta) simp_all
  then have l: "12 \<le> length (archive_bytes meta)"
    unfolding length_archive_bytes[OF assms(2)] by (rule trans_le_add1)
  then show "4 \<le> length (archive_bytes meta)" by simp
  have "header_row (archive_bytes meta) 0
          = Inr (int (payload_off meta 0), int (length (fst (meta ! 0))),
                  if snd (meta ! 0) then 1 else 0)"
    by (rule header_row_archive[OF n assms(2)])
  then have "from_bytes_little (take 4 (take 12 (archive_bytes meta))) = int (payload_off meta 0)"
    using l by (simp add: header_row_def struct_unpack_III_def)
  then show "from_bytes_little (take 4 (archive_bytes meta)) = int (length meta) * 12"
    by (simp add: payload_off_0)
qed

text \<open>\<open>load\<close> of a fresh archive on a file that passes every check.\<close>

lemma load_ok:
  assumes "4 \<le> length data"
    and "hdr = from_bytes_little (take 4 data)"
    and "hdr \<le> int (length data)"
    and "\<forall>i < nat (hdr div 12). row_flag data i \<in> {0, 1}"
    and "hdr + sum_list (map (row_size data) [0..<nat (hdr div 12)]) \<le> int (length data)"
  shows "fst (load (Some data) (OBT_init name)) = Inr ()
       \<and> mode (snd (load (Some data) (OBT_init name))) = OBT_Read
       \<and> file_bytes (snd (load (Some data) (OBT_init name))) = Some data
       \<and> entries (snd (load (Some data) (OBT_init name)))
           = map (\<lambda>i. (int i, parsed_entry data i)) [0..<nat (hdr div 12)]"
proof -
  have m: "mode (OBT_init name) = OBT_None" by (simp add: OBT_init_def)
  have le: "from_bytes_little (take 4 data) \<le> int (length data)" using assms(2,3) by simp
  have fl: "\<forall>i < nat (from_bytes_little (take 4 data) div 12). row_flag data i \<in> {0, 1}"
    using assms(2,4) by simp
  obtain s3 where l: "load_entries [0..<nat (hdr div 12)]
             ((OBT_init name)\<lparr>fp := Some \<lparr>content = data, pos = 4, writable = False\<rparr>,
                total_size := total_size (OBT_init name) + hdr\<rparr>) = (Inr (), s3)"
    and e: "entries s3 = fold (\<lambda>i. AList.update (int i) (parsed_entry data i))
                          [0..<nat (hdr div 12)] (entries (OBT_init name))"
    and t: "total_size s3 = total_size (OBT_init name) + hdr
            + sum_list (map (row_size data) [0..<nat (hdr div 12)])"
    and f: "file_bytes s3 = Some data"
    using load_rows_ok[OF m assms(1) le fl] unfolding assms(2)[symmetric] by blast
  have e': "entries s3 = map (\<lambda>i. (int i, parsed_entry data i)) [0..<nat (hdr div 12)]"
    using e fold_update_from_empty[of "parsed_entry data" "nat (hdr div 12)"]
    by (simp add: OBT_init_def)
  have t': "\<not> int (length data) < total_size s3" using t assms(5) by (simp add: OBT_init_def)
  have "load (Some data) (OBT_init name) = (Inr (), s3\<lparr>mode := OBT_Read\<rparr>)"
    using load_unfold[OF m assms(1) le] l t' unfolding assms(2)[symmetric] by simp
  then show ?thesis using e' f by (simp add: file_bytes_def)
qed

lemma export_entry_ok:
  assumes "mode s = OBT_Read" "map_of (entries s) i = Some e" "file_bytes s = Some data"
    "0 \<le> offset e" "0 \<le> size_e e"
  shows "fst (export_entry i s) = Inr (take (nat (size_e e)) (drop (nat (offset e)) data))"
  using assms
  by (auto simp add: export_entry_def fp_seek_def fp_read_def Let_def file_bytes_def)

lemma map_nth_apply: "map (\<lambda>i. g (xs ! i)) [0..<length xs] = map g xs"
  by (rule nth_equalityI) simp_all

lemma parsed_entry_archive:
  assumes "i < length meta"
    and "\<forall>i<length meta. int (payload_off meta i) \<le> 4294967295
           \<and> int (length (fst (meta ! i))) \<le> 4294967295"
  shows "parsed_entry (archive_bytes meta) i
           = \<lparr>offset = int (payload_off meta i), size_e = int (length (fst (meta ! i))),
              is_compressed = (if snd (meta ! i) then 1 else 0), loaded = True,
              raw_entry = None\<rparr>"
  using header_row_archive[OF assms]
  by (simp add: parsed_entry_def OBTEntry_load_def OBTEntry_init_def)

lemma int_sum_list_map: "int (sum_list (map f xs)) = sum_list (map (\<lambda>x. int (f x)) xs)"
  by (induction xs) simp_all

lemma row_size_archive:
  assumes "\<forall>i<length meta. int (payload_off meta i) \<le> 4294967295
           \<and> int (length (fst (meta ! i))) \<le> 4294967295"
  shows "sum_list (map (row_size (archive_bytes meta)) [0..<length meta])
           = int (sum_list (map (length \<circ> fst) meta))"
proof -
  have "map (row_size (archive_bytes meta)) [0..<length meta]
          = map (\<lambda>i. int (length (fst (meta ! i)))) [0..<length meta]"
  proof (rule map_cong[OF refl])
    fix i assume "i \<in> set [0..<length meta]"
    then have "i < length meta" by simp
    from header_row_archive[OF this assms]
    show "row_size (archive_bytes meta) i = int (length (fst (meta ! i)))"
      by (simp add: row_size_def)
  qed
  also have "\<dots> = map (\<lambda>x. int (length (fst x))) meta"
    by (rule map_nth_apply)
  finally show ?thesis by (simp add: int_sum_list_map)
qed

lemma load_archive:
  assumes "meta \<noteq> []"
    and "\<forall>i<length meta. int (payload_off meta i) \<le> 4294967295
           \<and> int (length (fst (meta ! i))) \<le> 4294967295"
  shows "fst (load (Some (archive_bytes meta)) (OBT_init name)) = Inr ()
       \<and> mode (snd (load (Some (archive_bytes meta)) (OBT_init name))) = OBT_Read
       \<and> file_bytes (snd (load (Some (archive_bytes meta)) (OBT_init name)))
           = Some (archive_bytes meta)
       \<and> entries (snd (load (Some (archive_bytes meta)) (OBT_init name)))
           = map (\<lambda>i. (int i, parsed_entry (archive_bytes meta) i)) [0..<length meta]"
proof -
  define F where "F = archive_bytes meta"
  define hdr where "hdr = int (length meta) * 12"
  have n: "nat (hdr div 12) = length meta" by (simp add: hdr_def)
  have a: "4 \<le> length F" unfolding F_def by (rule first4_archive(1)[OF assms])
  have b: "hdr = from_bytes_little (take 4 F)"
    unfolding F_def hdr_def by (rule first4_archive(2)[OF assms, symmetric])
  have len: "int (length F) = hdr + int (sum_list (map (length \<circ> fst) meta))"
    unfolding F_def hdr_def length_archive_bytes[OF assms(2)] by simp
  have c: "hdr \<le> int (length F)" unfolding len by simp
  have d: "\<forall>i < nat (hdr div 12). row_flag F i \<in> {0, 1}"
  proof (intro allI impI)
    fix i assume "i < nat (hdr div 12)"
    then have "i < length meta" unfolding n .
    from header_row_archive[OF this assms(2)] show "row_flag F i \<in> {0, 1}"
      by (simp add: row_flag_def F_def)
  qed
  have rs: "sum_list (map (row_size F) [0..<length meta])
              = int (sum_list (map (length \<circ> fst) meta))"
    unfolding F_def by (rule row_size_archive[OF assms(2)])
  have e: "hdr + sum_list (map (row_size F) [0..<nat (hdr div 12)]) \<le> int (length F)"
    unfolding n rs len by simp
  show ?thesis using load_ok[OF a b c d e, of name] unfolding n F_def .
qed

lemma payload_slice:
  assumes "i < length meta"
    and "\<forall>i<length meta. int (payload_off meta i) \<le> 4294967295
           \<and> int (length (fst (meta ! i))) \<le> 4294967295"
  shows "take (length (fst (meta ! i))) (drop (payload_off meta i) (archive_bytes meta))
           = fst (meta ! i)"
proof -
  have all: "\<forall>i\<in>set [0..<length meta]. length (row_bytes meta i) = 12"
    using row_bytes_unpack(1)[OF _ assms(2)] by auto
  have lh: "length (concat (map (row_bytes meta) [0..<length meta])) = length meta * 12"
    using length_concat_blocks[OF all] by simp
  have "drop (payload_off meta i) (archive_bytes meta)
          = drop (sum_list (map length (take i (map fst meta)))) (concat (map fst meta))"
    unfolding archive_bytes_def payload_off_def by (simp add: lh take_map)
  moreover have "take (length (map fst meta ! i))
                   (drop (sum_list (map length (take i (map fst meta)))) (concat (map fst meta)))
                 = map fst meta ! i"
    by (rule concat_nth_slice) (simp add: assms(1))
  ultimately show ?thesis using assms(1) by simp
qed

section \<open>Archives in Read mode\<close>

lemma set_update_cases:
  "x \<in> set (AList.update k v al) \<Longrightarrow> x = (k, v) \<or> x \<in> set al"
  by (induction al) (auto split: if_splits)

lemma entries_unsigned_lookup:
  assumes "entries_unsigned s" "map_of (entries s) k = Some e"
  shows "0 \<le> offset e \<and> 0 \<le> size_e e"
  using assms map_of_SomeD[OF assms(2)]
  by (auto simp add: entries_unsigned_def list_all_iff)

lemma load_entry_unsigned:
  assumes "entries_unsigned s"
  shows "entries_unsigned (snd (load_entry i s))"
proof -
  have u: "\<And>row a b c. struct_unpack_III row = Inr (a, b, c) \<Longrightarrow> 0 \<le> a \<and> 0 \<le> b"
    by (auto simp add: struct_unpack_III_def from_bytes_little_nonneg split: if_splits)
  show ?thesis
    using assms
    by (auto simp add: load_entry_def fp_seek_row fp_read_def Let_def entries_unsigned_def
        list_all_iff OBTEntry_load_def OBTEntry_init_def
        split: option.splits sum.splits prod.splits dest!: set_update_cases u)
qed

lemma load_entries_unsigned:
  assumes "entries_unsigned s"
  shows "entries_unsigned (snd (load_entries rows s))"
  using assms
proof (induction rows arbitrary: s)
  case Nil
  then show ?case by simp
next
  case (Cons i rows)
  obtain r s1 where l: "load_entry i s = (r, s1)" by (cases "load_entry i s")
  have u: "entries_unsigned s1" using load_entry_unsigned[OF Cons.prems, of i] l by simp
  show ?case
  proof (cases r)
    case (Inl e)
    then show ?thesis using l u by simp
  next
    case (Inr v)
    then show ?thesis using l Cons.IH[OF u] by simp
  qed
qed

text \<open>
  Whatever \<open>load\<close> returns, the records of the archive keep non-negative offsets and
  sizes; when it succeeds the archive is in Read mode with the file open on the bytes
  it was given.
\<close>

lemma load_unsigned:
  assumes "entries_unsigned s"
  shows "entries_unsigned (snd (load disk s))"
proof -
  have a: "\<And>f t. entries_unsigned (s\<lparr>fp := f, total_size := t\<rparr>)"
    using assms by (simp add: entries_unsigned_def)
  have b: "\<And>f. entries_unsigned (s\<lparr>fp := f\<rparr>)"
    using assms by (simp add: entries_unsigned_def)
  have c: "\<And>s'. entries_unsigned s' \<Longrightarrow> entries_unsigned (s'\<lparr>mode := OBT_Read\<rparr>)"
    by (simp add: entries_unsigned_def)
  show ?thesis
  proof (cases "mode s = OBT_None \<and> (\<exists>data. disk = Some data \<and> 4 \<le> length data
                   \<and> from_bytes_little (take 4 data) \<le> int (length data))")
    case False
    then show ?thesis using assms b
      by (auto simp add: load_def fp_seek_def fp_read_def Let_def split: option.splits)
  next
    case True
    then obtain data where d: "disk = Some data" "mode s = OBT_None" "4 \<le> length data"
      "from_bytes_little (take 4 data) \<le> int (length data)" by blast
    define s2 where "s2 = s\<lparr>fp := Some \<lparr>content = data, pos = 4, writable = False\<rparr>,
                total_size := total_size s + from_bytes_little (take 4 data)\<rparr>"
    define rows where "rows = [0..<nat (from_bytes_little (take 4 data) div 12)]"
    obtain r s3 where l: "load_entries rows s2 = (r, s3)" by (cases "load_entries rows s2")
    have "entries_unsigned s2" unfolding s2_def by (rule a)
    from load_entries_unsigned[OF this, of rows]
    have u3: "entries_unsigned s3" using l by simp
    have u: "load (Some data) s = (case load_entries rows s2 of
        (Inl e, s3) \<Rightarrow> (Inl e, s3)
      | (Inr u, s3) \<Rightarrow>
          if int (length data) < total_size s3
          then (Inl (InvalidOBTFileError ''Not enough data in file''), s3)
          else (Inr (), s3\<lparr>mode := OBT_Read\<rparr>))"
      using load_unfold[OF d(2,3,4)] unfolding s2_def rows_def by simp
    show ?thesis using u3 c[OF u3] by (cases r) (simp_all add: d(1) u l)
  qed
qed

lemma load_opens_file:
  assumes "mode s = OBT_None" "fst (load disk s) = Inr ()"
  shows "\<exists>data. disk = Some data \<and> file_bytes (snd (load disk s)) = Some data"
proof (cases disk)
  case None
  then show ?thesis using assms by (simp add: load_def)
next
  case (Some data)
  have ok: "4 \<le> length data \<and> from_bytes_little (take 4 data) \<le> int (length data)"
    using assms Some by (auto simp add: load_def fp_seek_def fp_read_def Let_def split: if_splits)
  define s2 where "s2 = s\<lparr>fp := Some \<lparr>content = data, pos = 4, writable = False\<rparr>,
                total_size := total_size s + from_bytes_little (take 4 data)\<rparr>"
  define rows where "rows = [0..<nat (from_bytes_little (take 4 data) div 12)]"
  obtain r s3 where l: "load_entries rows s2 = (r, s3)" by (cases "load_entries rows s2")
  have fb: "file_bytes s3 = Some data"
    using load_entries_file_bytes[of s2 data rows] l by (simp add: s2_def file_bytes_def)
  have u: "load (Some data) s = (case load_entries rows s2 of
        (Inl e, s3) \<Rightarrow> (Inl e, s3)
      | (Inr u, s3) \<Rightarrow>
          if int (length data) < total_size s3
          then (Inl (InvalidOBTFileError ''Not enough data in file''), s3)
          else (Inr (), s3\<lparr>mode := OBT_Read\<rparr>))"
    using load_unfold[OF assms(1)] ok unfolding s2_def rows_def by simp
  show ?thesis using assms(2) fb unfolding Some u l
    by (cases r) (auto simp add: file_bytes_def split: if_splits)
qed

text \<open>\<open>export_entry\<close> moves the file position and nothing else.\<close>

lemma export_entry_state:
  "mode (snd (export_entry i s)) = mode s
   \<and> entries (snd (export_entry i s)) = entries s
   \<and> entries_unsigned (snd (export_entry i s)) = entries_unsigned s
   \<and> file_bytes (snd (export_entry i s)) = file_bytes s"
  by (auto simp add: export_entry_def fp_seek_def fp_read_def Let_def file_bytes_def
      entries_unsigned_def split: option.splits)

section \<open>The claims\<close>

subsection \<open>C1\<close>

text \<open>
  C1, as amended. For a non-empty list of payloads with flags in which every offset the
  writer assigns and every payload length fits an unsigned 32-bit field, the call
  sequence \<open>init_write\<close>, \<open>add_entry\<close> in order, \<open>finalize_write\<close> succeeds; \<open>load\<close> of a
  fresh archive on the file it leaves succeeds; and for every index \<open>i\<close>,
  \<open>export_entry(i)\<close> returns payload \<open>i\<close> and the parsed record \<open>i\<close> carries flag \<open>i\<close>
  (1 for true, 0 for false).
\<close>

theorem C1_round_trip:
  assumes "meta \<noteq> []" "disk = None \<or> overwrite"
    and "\<forall>i<length meta. int (payload_off meta i) \<le> 4294967295
           \<and> int (length (fst (meta ! i))) \<le> 4294967295"
  shows "fst (create name overwrite disk meta) = Inr ()
       \<and> (\<exists>f. file_bytes (snd (create name overwrite disk meta)) = Some f
             \<and> fst (load (Some f) (OBT_init name')) = Inr ()
             \<and> (\<forall>i<length meta.
                    fst (export_entry (int i) (snd (load (Some f) (OBT_init name'))))
                      = Inr (fst (meta ! i))
                  \<and> map_option is_compressed
                      (map_of (entries (snd (load (Some f) (OBT_init name')))) (int i))
                      = Some (if snd (meta ! i) then 1 else 0)))"
proof -
  define F where "F = archive_bytes meta"
  define r where "r = snd (load (Some F) (OBT_init name'))"
  have c: "fst (create name overwrite disk meta) = Inr ()"
    "file_bytes (snd (create name overwrite disk meta)) = Some F"
    using create_ok[OF assms] unfolding F_def by simp_all
  have l: "fst (load (Some F) (OBT_init name')) = Inr ()" "mode r = OBT_Read"
    "file_bytes r = Some F"
    "entries r = map (\<lambda>i. (int i, parsed_entry F i)) [0..<length meta]"
    using load_archive[OF assms(1,3), of name'] unfolding F_def r_def by simp_all
  have e: "\<forall>i<length meta.
             fst (export_entry (int i) r) = Inr (fst (meta ! i))
           \<and> map_option is_compressed (map_of (entries r) (int i))
               = Some (if snd (meta ! i) then 1 else 0)"
  proof (intro allI impI)
    fix i assume i: "i < length meta"
    define e where "e = parsed_entry F i"
    have m: "map_of (entries r) (int i) = Some e"
      unfolding l(4) map_of_indexed e_def using i by auto
    have pe: "e = \<lparr>offset = int (payload_off meta i), size_e = int (length (fst (meta ! i))),
              is_compressed = (if snd (meta ! i) then 1 else 0), loaded = True,
              raw_entry = None\<rparr>"
      unfolding e_def F_def by (rule parsed_entry_archive[OF i assms(3)])
    have nn: "0 \<le> offset e" "0 \<le> size_e e" unfolding pe by simp_all
    have "fst (export_entry (int i) r)
            = Inr (take (nat (size_e e)) (drop (nat (offset e)) F))"
      by (rule export_entry_ok[OF l(2) m l(3) nn])
    also have "\<dots> = Inr (fst (meta ! i))"
      using payload_slice[OF i assms(3)] unfolding pe F_def by simp
    finally show "fst (export_entry (int i) r) = Inr (fst (meta ! i))
           \<and> map_option is_compressed (map_of (entries r) (int i))
               = Some (if snd (meta ! i) then 1 else 0)"
      using m unfolding pe by simp
  qed
  show ?thesis using c l(1) e unfolding r_def by blast
qed

theorem C1_round_trip_witness:
  "fst (create ''out.obt'' False None [([65, 66], False), ([67, 68, 69], True)]) = Inr ()
   \<and> (\<exists>f. file_bytes (snd (create ''out.obt'' False None
                               [([65, 66], False), ([67, 68, 69], True)])) = Some f
         \<and> fst (load (Some f) (OBT_init ''out.obt'')) = Inr ()
         \<and> fst (export_entry 0 (snd (load (Some f) (OBT_init ''out.obt'')))) = Inr [65, 66]
         \<and> fst (export_entry 1 (snd (load (Some f) (OBT_init ''out.obt''))))
             = Inr [67, 68, 69]
         \<and> map_option is_compressed
             (map_of (entries (snd (load (Some f) (OBT_init ''out.obt'')))) 0) = Some 0
         \<and> map_option is_compressed
             (map_of (entries (snd (load (Some f) (OBT_init ''out.obt'')))) 1) = Some 1)"
proof -
  define M :: "(bytes \<times> bool) list" where "M = [([65, 66], False), ([67, 68, 69], True)]"
  have ne: "M \<noteq> []" by (simp add: M_def)
  have d: "None = (None :: bytes option) \<or> False" by simp
  have b: "\<forall>i<length M. int (payload_off M i) \<le> 4294967295
           \<and> int (length (fst (M ! i))) \<le> 4294967295"
    by (simp add: M_def payload_off_def less_Suc_eq)
  from C1_round_trip[OF ne d b, of "''out.obt''" "''out.obt''"]
  obtain f where c: "fst (create ''out.obt'' False None M) = Inr ()"
    and f: "file_bytes (snd (create ''out.obt'' False None M)) = Some f"
    and l: "fst (load (Some f) (OBT_init ''out.obt'')) = Inr ()"
    and e: "\<forall>i<length M.
                    fst (export_entry (int i) (snd (load (Some f) (OBT_init ''out.obt''))))
                      = Inr (fst (M ! i))
                  \<and> map_option is_compressed
                      (map_of (entries (snd (load (Some f) (OBT_init ''out.obt'')))) (int i))
                      = Some (if snd (M ! i) then 1 else 0)"
    by blast
  have e0: "fst (export_entry 0 (snd (load (Some f) (OBT_init ''out.obt'')))) = Inr [65, 66]
     \<and> map_option is_compressed
             (map_of (entries (snd (load (Some f) (OBT_init ''out.obt'')))) 0) = Some 0"
    using e[rule_format, of 0] by (simp add: M_def)
  have e1: "fst (export_entry 1 (snd (load (Some f) (OBT_init ''out.obt''))))
             = Inr [67, 68, 69]
     \<and> map_option is_compressed
             (map_of (entries (snd (load (Some f) (OBT_init ''out.obt'')))) 1) = Some 1"
    using e[rule_format, of 1] by (simp add: M_def)
  show ?thesis using c f l e0 e1 unfolding M_def by blast
qed

text \<open>
  C1 as stated fails: for a single payload of \<open>2^32\<close> bytes \<open>finalize_write\<close> raises
  \<open>struct.error\<close> on the first row and has written nothing; the file, created empty by
  \<open>init_write\<close>, does not load.
\<close>

theorem C1_payload_beyond_32_bits:
  "fst (create ''out.obt'' False None [(replicate 4294967296 0, False)]) = Inl StructError
   \<and> file_bytes (snd (create ''out.obt'' False None [(replicate 4294967296 0, False)]))
       = Some []
   \<and> fst (load (Some []) (OBT_init ''out.obt''))
       = Inl (InvalidOBTFileError ''Could not read header size'')"
  by (simp add: create_def init_write_def OBT_init_def add_entry_def frombytes_def
        OBTEntry_init_def finalize_write_def fp_seek_def struct_pack_III_def pack_I_def
        file_bytes_def load_def)

subsection \<open>C2\<close>

text \<open>
  C2, as amended. \<open>OBTEntry.load\<close> has no guard: on every record, loaded or not, it
  stores the given offset, size and flag, marks the record loaded and keeps the payload
  field; it raises nothing.
\<close>

theorem C2_entry_load_unguarded:
  "offset (OBTEntry_load off sz c e) = off
   \<and> size_e (OBTEntry_load off sz c e) = sz
   \<and> is_compressed (OBTEntry_load off sz c e) = c
   \<and> loaded (OBTEntry_load off sz c e)
   \<and> raw_entry (OBTEntry_load off sz c e) = raw_entry e"
  by (simp add: OBTEntry_load_def)

text \<open>
  C2 as stated fails: binding a record that is already loaded with (24, 2, 0) to
  (26, 3, 1) returns the record with the new fields.
\<close>

theorem C2_entry_load_overwrites:
  "loaded (OBTEntry_load 24 2 0 OBTEntry_init)
   \<and> OBTEntry_load 26 3 1 (OBTEntry_load 24 2 0 OBTEntry_init)
       = \<lparr>offset = 26, size_e = 3, is_compressed = 1, loaded = True, raw_entry = None\<rparr>"
  by (simp add: OBTEntry_load_def OBTEntry_init_def)

subsection \<open>C3\<close>

text \<open>
  C3, as amended. \<open>export_entry\<close> fails with the state error unless the archive is in
  Read mode, and fails on an index that is not a key of \<open>entries\<close>. On a key of an
  archive in Read mode, open on the bytes \<open>data\<close> and with records as \<open>load\<close> binds them
  (\<open>load_unsigned\<close>, \<open>load_opens_file\<close>; \<open>export_entry_state\<close> keeps both), it returns
  the bytes of the file from \<open>offset\<close> on, at most \<open>size\<close> of them: exactly \<open>size\<close> when
  \<open>offset + size\<close> is within the file. The result is the bytes alone.
\<close>

theorem C3_export_entry:
  "(mode s \<noteq> OBT_Read \<longrightarrow> fst (export_entry i s) = Inl (OBTError ''File is not opened''))
   \<and> (mode s = OBT_Read \<and> map_of (entries s) i = None \<longrightarrow> isl (fst (export_entry i s)))
   \<and> (mode s = OBT_Read \<and> entries_unsigned s \<and> file_bytes s = Some data
        \<and> map_of (entries s) i = Some e \<longrightarrow>
          fst (export_entry i s)
            = Inr (take (nat (size_e e)) (drop (nat (offset e)) data))
        \<and> (offset e + size_e e \<le> int (length data) \<longrightarrow>
             length (take (nat (size_e e)) (drop (nat (offset e)) data)) = nat (size_e e)))"
proof -
  have a: "mode s \<noteq> OBT_Read \<longrightarrow>
             fst (export_entry i s) = Inl (OBTError ''File is not opened'')"
    by (simp add: export_entry_def)
  have b: "mode s = OBT_Read \<and> map_of (entries s) i = None \<longrightarrow> isl (fst (export_entry i s))"
    by (simp add: export_entry_def)
  have c: "mode s = OBT_Read \<and> entries_unsigned s \<and> file_bytes s = Some data
        \<and> map_of (entries s) i = Some e \<longrightarrow>
          fst (export_entry i s)
            = Inr (take (nat (size_e e)) (drop (nat (offset e)) data))
        \<and> (offset e + size_e e \<le> int (length data) \<longrightarrow>
             length (take (nat (size_e e)) (drop (nat (offset e)) data)) = nat (size_e e))"
  proof
    assume h: "mode s = OBT_Read \<and> entries_unsigned s \<and> file_bytes s = Some data
        \<and> map_of (entries s) i = Some e"
    then have nn: "0 \<le> offset e" "0 \<le> size_e e"
      using entries_unsigned_lookup[of s i e] by simp_all
    have "fst (export_entry i s) = Inr (take (nat (size_e e)) (drop (nat (offset e)) data))"
      using h nn by (intro export_entry_ok) simp_all
    moreover have "offset e + size_e e \<le> int (length data) \<longrightarrow>
             length (take (nat (size_e e)) (drop (nat (offset e)) data)) = nat (size_e e)"
      using nn by auto
    ultimately show "fst (export_entry i s)
            = Inr (take (nat (size_e e)) (drop (nat (offset e)) data))
        \<and> (offset e + size_e e \<le> int (length data) \<longrightarrow>
             length (take (nat (size_e e)) (drop (nat (offset e)) data)) = nat (size_e e))"
      by simp
  qed
  show ?thesis using a b c by simp
qed

theorem C3_export_entry_witness:
  "fst (export_entry 1 (snd (load (Some [24, 0, 0, 0, 2, 0, 0, 0, 0, 0, 0, 0,
               26, 0, 0, 0, 3, 0, 0, 0, 1, 0, 0, 0,
               65, 66, 67, 68, 69]) (OBT_init ''a.obt'')))) = Inr [67, 68, 69]
   \<and> isl (fst (export_entry 2 (snd (load (Some [24, 0, 0, 0, 2, 0, 0, 0, 0, 0, 0, 0,
               26, 0, 0, 0, 3, 0, 0, 0, 1, 0, 0, 0,
               65, 66, 67, 68, 69]) (OBT_init ''a.obt'')))))
   \<and> fst (export_entry 1 (OBT_init ''a.obt'')) = Inl (OBTError ''File is not opened'')"
proof -
  define s where "s = snd (load (Some [24, 0, 0, 0, 2, 0, 0, 0, 0, 0, 0, 0,
               26, 0, 0, 0, 3, 0, 0, 0, 1, 0, 0, 0,
               65, 66, 67, 68, 69]) (OBT_init ''a.obt''))"
  have s: "s = \<lparr>entries =
     [(0, \<lparr>offset = 24, size_e = 2, is_compressed = 0, loaded = True, raw_entry = None\<rparr>),
      (1, \<lparr>offset = 26, size_e = 3, is_compressed = 1, loaded = True, raw_entry = None\<rparr>)],
     fp = Some \<lparr>content = [24, 0, 0, 0, 2, 0, 0, 0, 0, 0, 0, 0,
               26, 0, 0, 0, 3, 0, 0, 0, 1, 0, 0, 0,
               65, 66, 67, 68, 69], pos = 24, writable = False\<rparr>,
     filename = ''a.obt'', total_size = 29, entry_offset = 0, mode = OBT_Read\<rparr>"
    unfolding s_def by code_simp
  have a: "fst (export_entry 1 s) = Inr [67, 68, 69]"
    using C3_export_entry[of s 1
        "[24, 0, 0, 0, 2, 0, 0, 0, 0, 0, 0, 0,
               26, 0, 0, 0, 3, 0, 0, 0, 1, 0, 0, 0,
               65, 66, 67, 68, 69]"
        "\<lparr>offset = 26, size_e = 3, is_compressed = 1, loaded = True, raw_entry = None\<rparr>"]
    by (simp add: s entries_unsigned_def file_bytes_def)
  have b: "isl (fst (export_entry 2 s))"
    using C3_export_entry[of s 2] by (simp add: s)
  have c: "fst (export_entry 1 (OBT_init ''a.obt'')) = Inl (OBTError ''File is not opened'')"
    using C3_export_entry[of "OBT_init ''a.obt''" 1] by (simp add: OBT_init_def)
  show ?thesis using a b c unfolding s_def by simp
qed

text \<open>
  C3 as stated fails: this 25-byte file loads; its second record has size 1 and offset
  1000, beyond the end of the file, and \<open>export_entry\<close> returns no byte for it.
\<close>

theorem C3_export_entry_short_read:
  "fst (load (Some [24, 0, 0, 0, 0, 0, 0, 0, 0, 0, 0, 0,
                    232, 3, 0, 0, 1, 0, 0, 0, 0, 0, 0, 0, 7]) (OBT_init ''a.obt'')) = Inr ()
   \<and> map_of (entries (snd (load (Some [24, 0, 0, 0, 0, 0, 0, 0, 0, 0, 0, 0,
                    232, 3, 0, 0, 1, 0, 0, 0, 0, 0, 0, 0, 7]) (OBT_init ''a.obt'')))) 1
       = Some \<lparr>offset = 1000, size_e = 1, is_compressed = 0, loaded = True, raw_entry = None\<rparr>
   \<and> fst (export_entry 1 (snd (load (Some [24, 0, 0, 0, 0, 0, 0, 0, 0, 0, 0, 0,
                    232, 3, 0, 0, 1, 0, 0, 0, 0, 0, 0, 0, 7]) (OBT_init ''a.obt''))))
       = Inr []"
  by code_simp

subsection \<open>C4\<close>

text \<open>
  C4, as amended. On an unopened archive, a file whose header can be read and which has
  a row, among the rows the header size gives, with a flag other than 0 and 1 makes
  \<open>load\<close> fail with \<open>OBTError\<close> "Unknown compression method": the general error class,
  not \<open>InvalidOBTFileError\<close>.
\<close>

theorem C4_unknown_compression_is_OBTError:
  assumes "mode s = OBT_None" "4 \<le> length data"
    and "from_bytes_little (take 4 data) \<le> int (length data)"
    and "i < nat (from_bytes_little (take 4 data) div 12)"
    and "row_flag data i \<notin> {0, 1}"
  shows "fst (load (Some data) s) = Inl (OBTError ''Unknown compression method'')"
proof -
  define s2 where "s2 = s\<lparr>fp := Some \<lparr>content = data, pos = 4, writable = False\<rparr>,
                total_size := total_size s + from_bytes_little (take 4 data)\<rparr>"
  define rows where "rows = [0..<nat (from_bytes_little (take 4 data) div 12)]"
  have fb: "file_bytes s2 = Some data" by (simp add: s2_def file_bytes_def)
  have all: "\<forall>i\<in>set rows. \<exists>off sz c. header_row data i = Inr (off, sz, c)"
    unfolding rows_def by (rule header_rows_in_range[OF assms(3)])
  have ex: "\<exists>i\<in>set rows. row_flag data i \<notin> {0, 1}"
    using assms(4,5) unfolding rows_def by auto
  have l: "fst (load_entries rows s2) = Inl (OBTError ''Unknown compression method'')"
    by (rule load_entries_bad[OF fb all ex])
  have u: "load (Some data) s = (case load_entries rows s2 of
        (Inl e, s3) \<Rightarrow> (Inl e, s3)
      | (Inr u, s3) \<Rightarrow>
          if int (length data) < total_size s3
          then (Inl (InvalidOBTFileError ''Not enough data in file''), s3)
          else (Inr (), s3\<lparr>mode := OBT_Read\<rparr>))"
    using load_unfold[OF assms(1,2,3)] unfolding s2_def rows_def by simp
  show ?thesis using l unfolding u by (cases "load_entries rows s2") auto
qed

theorem C4_unknown_compression_witness:
  "fst (load (Some [12, 0, 0, 0, 0, 0, 0, 0, 7, 0, 0, 0]) (OBT_init ''a.obt''))
     = Inl (OBTError ''Unknown compression method'')"
  using C4_unknown_compression_is_OBTError
          [of "OBT_init ''a.obt''" "[12, 0, 0, 0, 0, 0, 0, 0, 7, 0, 0, 0]" 0]
  by (simp add: OBT_init_def row_flag_def header_row_def struct_unpack_III_def)

text \<open>
  C4 as stated fails: a 12-byte file whose only row has flag 2 is rejected with the
  plain \<open>OBTError\<close>, which is not of the \<open>InvalidOBTFileError\<close> kind.
\<close>

theorem C4_unknown_compression_not_invalid_file:
  "fst (load (Some [12, 0, 0, 0, 0, 0, 0, 0, 2, 0, 0, 0]) (OBT_init ''a.obt''))
     = Inl (OBTError ''Unknown compression method'')
   \<and> is_OBTError (OBTError ''Unknown compression method'')
   \<and> \<not> is_InvalidOBTFileError (OBTError ''Unknown compression method'')"
  by code_simp

subsection \<open>C5\<close>

text \<open>
  C5. On an unopened archive, a file shorter than 4 bytes is rejected with
  \<open>InvalidOBTFileError\<close> "Could not read header size", and a file whose first 4 bytes,
  read little-endian, give a header size above the length of the file is rejected with
  \<open>InvalidOBTFileError\<close> "Could not read header".
\<close>

theorem C5_short_file_rejected:
  assumes "mode s = OBT_None"
  shows "(length data < 4 \<longrightarrow>
            fst (load (Some data) s) = Inl (InvalidOBTFileError ''Could not read header size''))
       \<and> (4 \<le> length data \<and> int (length data) < from_bytes_little (take 4 data) \<longrightarrow>
            fst (load (Some data) s) = Inl (InvalidOBTFileError ''Could not read header''))"
  using assms by (simp add: load_def fp_seek_def fp_read_def Let_def)

theorem C5_short_file_witness:
  "fst (load (Some [24, 0, 0]) (OBT_init ''a.obt''))
     = Inl (InvalidOBTFileError ''Could not read header size'')
   \<and> fst (load (Some [24, 0, 0, 0, 2, 0, 0, 0]) (OBT_init ''a.obt''))
     = Inl (InvalidOBTFileError ''Could not read header'')"
  using C5_short_file_rejected [of "OBT_init ''a.obt''" "[24, 0, 0]"]
        C5_short_file_rejected [of "OBT_init ''a.obt''" "[24, 0, 0, 0, 2, 0, 0, 0]"]
  by (simp add: OBT_init_def)

subsection \<open>C6\<close>

text \<open>
  C6. A file whose header passes the two size checks and the flag check of every row,
  but whose header size plus declared entry sizes exceed its length, is rejected by
  \<open>load\<close> on a fresh archive with \<open>InvalidOBTFileError\<close> "Not enough data in file"; the
  check comes after the loop, so the archive then holds every record of the header, bound.
\<close>

theorem C6_not_enough_data:
  assumes "4 \<le> length data"
    and "hdr = from_bytes_little (take 4 data)"
    and "hdr \<le> int (length data)"
    and "\<forall>i < nat (hdr div 12). row_flag data i \<in> {0, 1}"
    and "int (length data) < hdr + sum_list (map (row_size data) [0..<nat (hdr div 12)])"
  shows "fst (load (Some data) (OBT_init name))
           = Inl (InvalidOBTFileError ''Not enough data in file'')
       \<and> entries (snd (load (Some data) (OBT_init name)))
           = map (\<lambda>i. (int i, parsed_entry data i)) [0..<nat (hdr div 12)]"
proof -
  have m: "mode (OBT_init name) = OBT_None" by (simp add: OBT_init_def)
  have le: "from_bytes_little (take 4 data) \<le> int (length data)" using assms(2,3) by simp
  have fl: "\<forall>i < nat (from_bytes_little (take 4 data) div 12). row_flag data i \<in> {0, 1}"
    using assms(2,4) by simp
  obtain s3 where l: "load_entries [0..<nat (hdr div 12)]
             ((OBT_init name)\<lparr>fp := Some \<lparr>content = data, pos = 4, writable = False\<rparr>,
                total_size := total_size (OBT_init name) + hdr\<rparr>) = (Inr (), s3)"
    and e: "entries s3 = fold (\<lambda>i. AList.update (int i) (parsed_entry data i))
                          [0..<nat (hdr div 12)] (entries (OBT_init name))"
    and t: "total_size s3 = total_size (OBT_init name) + hdr
            + sum_list (map (row_size data) [0..<nat (hdr div 12)])"
    using load_rows_ok[OF m assms(1) le fl] unfolding assms(2)[symmetric] by blast
  have e': "entries s3 = map (\<lambda>i. (int i, parsed_entry data i)) [0..<nat (hdr div 12)]"
    using e fold_update_from_empty[of "parsed_entry data" "nat (hdr div 12)"]
    by (simp add: OBT_init_def)
  have t': "int (length data) < total_size s3" using t assms(5) by (simp add: OBT_init_def)
  have "load (Some data) (OBT_init name)
          = (Inl (InvalidOBTFileError ''Not enough data in file''), s3)"
    using load_unfold[OF m assms(1) le] l t' unfolding assms(2)[symmetric] by simp
  then show ?thesis using e' by simp
qed

theorem C6_not_enough_data_witness:
  "fst (load (Some [12, 0, 0, 0, 5, 0, 0, 0, 1, 0, 0, 0, 65, 66]) (OBT_init ''a.obt''))
     = Inl (InvalidOBTFileError ''Not enough data in file'')
   \<and> entries (snd (load (Some [12, 0, 0, 0, 5, 0, 0, 0, 1, 0, 0, 0, 65, 66]) (OBT_init ''a.obt'')))
     = [(0, \<lparr>offset = 12, size_e = 5, is_compressed = 1, loaded = True, raw_entry = None\<rparr>)]"
  using C6_not_enough_data
          [of "[12, 0, 0, 0, 5, 0, 0, 0, 1, 0, 0, 0, 65, 66]" 12 "''a.obt''"]
  by (simp add: row_flag_def row_size_def parsed_entry_def header_row_def
        struct_unpack_III_def OBTEntry_load_def OBTEntry_init_def)

subsection \<open>C7\<close>

text \<open>
  C7. After a successful \<open>finalize_write\<close> of an archive with \<open>N\<close> entries the first 4
  bytes of the file, read little-endian, are \<open>N * 12\<close>, and row 0 of the header carries
  that value as the offset of entry 0.
\<close>

theorem C7_header_self_description:
  assumes "finalize_write s = (Inr u, s')"
  shows "\<exists>f sz c. file_bytes s' = Some f
           \<and> from_bytes_little (take 4 f) = int (length (entries s)) * 12
           \<and> header_row f 0 = Inr (int (length (entries s)) * 12, sz, c)"
  using finalize_write_first_row[OF assms] by blast

theorem C7_header_self_description_witness:
  "\<exists>f sz c.
     file_bytes (snd (finalize_write
        (snd (add_entries [([65, 66], False), ([67, 68, 69], True)]
               (snd (init_write False None (OBT_init ''out.obt'')))))))
       = Some f
     \<and> from_bytes_little (take 4 f) = 24
     \<and> header_row f 0 = Inr (24, sz, c)"
proof -
  define w where "w = snd (add_entries [([65, 66], False), ([67, 68, 69], True)]
               (snd (init_write False None (OBT_init ''out.obt''))))"
  have l: "length (entries w) = 2" unfolding w_def by code_simp
  have "fst (finalize_write w) = Inr ()" unfolding w_def by code_simp
  then have "finalize_write w = (Inr (), snd (finalize_write w))"
    by (simp add: prod_eq_iff)
  from C7_header_self_description[OF this]
  have "\<exists>f sz c. file_bytes (snd (finalize_write w)) = Some f
     \<and> from_bytes_little (take 4 f) = 24
     \<and> header_row f 0 = Inr (24, sz, c)"
    unfolding l by simp
  then show ?thesis unfolding w_def .
qed

subsection \<open>C8\<close>

text \<open>
  C8. Writing exactly \<open>b"AB"\<close> with flag false and \<open>b"CDE"\<close> with flag true succeeds and
  leaves a file of 29 bytes: the rows (24, 2, 0) and (26, 3, 1), then \<open>AB\<close> at 24 and
  \<open>CDE\<close> at 26.
\<close>

theorem C8_two_entry_scenario:
  "fst (create ''out.obt'' False None [([65, 66], False), ([67, 68, 69], True)]) = Inr ()
   \<and> file_bytes (snd (create ''out.obt'' False None [([65, 66], False), ([67, 68, 69], True)]))
       = Some [24, 0, 0, 0, 2, 0, 0, 0, 0, 0, 0, 0,
               26, 0, 0, 0, 3, 0, 0, 0, 1, 0, 0, 0,
               65, 66, 67, 68, 69]
   \<and> length [24, 0, 0, 0, 2, 0, 0, 0, 0, 0, 0, 0,
               26, 0, 0, 0, 3, 0, 0, 0, 1, 0, 0, 0,
               65, 66, 67, 68, 69 :: byte] = 29
   \<and> header_row [24, 0, 0, 0, 2, 0, 0, 0, 0, 0, 0, 0,
               26, 0, 0, 0, 3, 0, 0, 0, 1, 0, 0, 0,
               65, 66, 67, 68, 69] 0 = Inr (24, 2, 0)
   \<and> header_row [24, 0, 0, 0, 2, 0, 0, 0, 0, 0, 0, 0,
               26, 0, 0, 0, 3, 0, 0, 0, 1, 0, 0, 0,
               65, 66, 67, 68, 69] 1 = Inr (26, 3, 1)"
  by code_simp

subsection \<open>C9\<close>

text \<open>
  C9, as amended. \<open>load\<close> on an unopened archive sets the mode to Read exactly when it
  succeeds. When it fails the mode is still Unopened, and \<open>export_entry\<close>, \<open>add_entry\<close>
  and \<open>finalize_write\<close> all fail on the archive it leaves.
\<close>

theorem C9_load_mode:
  assumes "mode s = OBT_None" "load disk s = (r, s')"
  shows "(r = Inr () \<longrightarrow> mode s' = OBT_Read)
       \<and> (r \<noteq> Inr () \<longrightarrow>
            mode s' = OBT_None
          \<and> fst (export_entry i s') = Inl (OBTError ''File is not opened'')
          \<and> fst (add_entry entry compressed s')
              = Inl (OBTError ''OBT has not been opened for writing'')
          \<and> fst (finalize_write s') = Inl (OBTError ''OBT has not been opened for writing''))"
proof -
  have a: "r = Inr () \<longrightarrow> mode s' = OBT_Read"
    using load_mode_Read[OF assms(1), of disk] assms(2) by simp
  have b: "r \<noteq> Inr () \<longrightarrow> mode s' = OBT_None"
    using load_mode_None[OF assms(1), of disk] assms(2) by simp
  show ?thesis using a b by (simp add: export_entry_def add_entry_def finalize_write_def)
qed

theorem C9_load_mode_witness:
  "mode (snd (load (Some [12, 0, 0, 0, 0, 0, 0, 0, 2, 0, 0, 0]) (OBT_init ''a.obt''))) = OBT_None
   \<and> fst (export_entry 0 (snd (load (Some [12, 0, 0, 0, 0, 0, 0, 0, 2, 0, 0, 0])
                                   (OBT_init ''a.obt''))))
       = Inl (OBTError ''File is not opened'')
   \<and> mode (snd (load (Some [12, 0, 0, 0, 0, 0, 0, 0, 1, 0, 0, 0]) (OBT_init ''a.obt''))) = OBT_Read"
proof -
  have m: "mode (OBT_init ''a.obt'') = OBT_None" by (simp add: OBT_init_def)
  have f: "fst (load (Some [12, 0, 0, 0, 0, 0, 0, 0, 2, 0, 0, 0]) (OBT_init ''a.obt'')) \<noteq> Inr ()"
    by code_simp
  have g: "fst (load (Some [12, 0, 0, 0, 0, 0, 0, 0, 1, 0, 0, 0]) (OBT_init ''a.obt'')) = Inr ()"
    by code_simp
  show ?thesis
    using C9_load_mode[OF m surjective_pairing, of "Some [12, 0, 0, 0, 0, 0, 0, 0, 2, 0, 0, 0]" 0]
          C9_load_mode[OF m surjective_pairing, of "Some [12, 0, 0, 0, 0, 0, 0, 0, 1, 0, 0, 0]"]
          f g
    by simp
qed

text \<open>
  C9 as stated fails: \<open>load\<close> of a 12-byte file whose row declares 5 payload bytes fails
  with "Not enough data in file", and the archive it leaves holds the parsed record and
  the accumulated size; \<open>init_write\<close> is still accepted on it.
\<close>

theorem C9_partial_state_remains:
  "fst (load (Some [12, 0, 0, 0, 5, 0, 0, 0, 0, 0, 0, 0]) (OBT_init ''a.obt''))
     = Inl (InvalidOBTFileError ''Not enough data in file'')
   \<and> entries (snd (load (Some [12, 0, 0, 0, 5, 0, 0, 0, 0, 0, 0, 0]) (OBT_init ''a.obt'')))
     = [(0, \<lparr>offset = 12, size_e = 5, is_compressed = 0, loaded = True, raw_entry = None\<rparr>)]
   \<and> total_size (snd (load (Some [12, 0, 0, 0, 5, 0, 0, 0, 0, 0, 0, 0]) (OBT_init ''a.obt'')))
     = 17
   \<and> fst (init_write True None
             (snd (load (Some [12, 0, 0, 0, 5, 0, 0, 0, 0, 0, 0, 0]) (OBT_init ''a.obt''))))
     = Inr ()"
  by code_simp

subsection \<open>C10\<close>

text \<open>
  C10. A file of at least 4 bytes whose first 4 bytes give a value below 12 and not above
  its length loads on a fresh archive: the mode becomes Read and there is no entry. The
  writer does not produce such a file: \<open>finalize_write\<close> refuses an archive in Write mode
  without entries, and no successful \<open>finalize_write\<close> leaves these bytes.
\<close>

theorem C10_header_below_one_row:
  assumes "4 \<le> length data" "v = from_bytes_little (take 4 data)" "v < 12"
    "v \<le> int (length data)"
  shows "fst (load (Some data) (OBT_init name)) = Inr ()
       \<and> mode (snd (load (Some data) (OBT_init name))) = OBT_Read
       \<and> entries (snd (load (Some data) (OBT_init name))) = []
       \<and> (mode w = OBT_Write \<and> entries w = [] \<longrightarrow>
            fst (finalize_write w) = Inl (OBTError ''No entries to write''))
       \<and> (finalize_write w1 = (Inr u, w2) \<longrightarrow> file_bytes w2 \<noteq> Some data)"
proof -
  have m: "mode (OBT_init name) = OBT_None" by (simp add: OBT_init_def)
  have le: "from_bytes_little (take 4 data) \<le> int (length data)" using assms(2,4) by simp
  have "0 \<le> v" unfolding assms(2) by (rule from_bytes_little_nonneg)
  then have n: "nat (from_bytes_little (take 4 data) div 12) = 0"
    using assms(2,3) by simp
  have l: "load (Some data) (OBT_init name)
         = (Inr (), (OBT_init name)\<lparr>fp := Some \<lparr>content = data, pos = 4, writable = False\<rparr>,
                total_size := total_size (OBT_init name) + from_bytes_little (take 4 data),
                mode := OBT_Read\<rparr>)"
    using load_unfold[OF m assms(1) le] le unfolding n by (simp add: OBT_init_def)
  have a: "mode w = OBT_Write \<and> entries w = [] \<longrightarrow>
            fst (finalize_write w) = Inl (OBTError ''No entries to write'')"
    by (simp add: finalize_write_def)
  have b: "finalize_write w1 = (Inr u, w2) \<longrightarrow> file_bytes w2 \<noteq> Some data"
  proof
    assume f: "finalize_write w1 = (Inr u, w2)"
    from finalize_write_first_row[OF f] obtain f' where
      f': "file_bytes w2 = Some f'"
        "from_bytes_little (take 4 f') = int (length (entries w1)) * 12"
      and ne: "entries w1 \<noteq> []" by blast
    have "1 \<le> length (entries w1)" using ne by (cases "entries w1") simp_all
    then have "12 \<le> from_bytes_little (take 4 f')" unfolding f'(2) by simp
    then have "f' \<noteq> data" using assms(2,3) by auto
    then show "file_bytes w2 \<noteq> Some data" using f'(1) by simp
  qed
  show ?thesis using a b unfolding l by (simp add: OBT_init_def)
qed

theorem C10_header_below_one_row_witness:
  "fst (load (Some [5, 0, 0, 0, 9]) (OBT_init ''a.obt'')) = Inr ()
   \<and> mode (snd (load (Some [5, 0, 0, 0, 9]) (OBT_init ''a.obt''))) = OBT_Read
   \<and> entries (snd (load (Some [5, 0, 0, 0, 9]) (OBT_init ''a.obt''))) = []
   \<and> fst (finalize_write (snd (init_write False None (OBT_init ''out.obt''))))
       = Inl (OBTError ''No entries to write'')
   \<and> file_bytes (snd (finalize_write
        (snd (add_entries [([65, 66], False)]
               (snd (init_write False None (OBT_init ''out.obt'')))))))
       \<noteq> Some [5, 0, 0, 0, 9]"
proof -
  define w where "w = snd (init_write False None (OBT_init ''out.obt''))"
  define w1 where "w1 = snd (add_entries [([65, 66], False)]
               (snd (init_write False None (OBT_init ''out.obt''))))"
  have e: "mode w = OBT_Write \<and> entries w = []" unfolding w_def by code_simp
  have "fst (finalize_write w1) = Inr ()" unfolding w1_def by code_simp
  then have f: "finalize_write w1 = (Inr (), snd (finalize_write w1))"
    by (simp add: prod_eq_iff)
  show ?thesis
    using C10_header_below_one_row
            [of "[5, 0, 0, 0, 9]" 5 "''a.obt''" w w1 "()" "snd (finalize_write w1)"] e f
    unfolding w_def w1_def by simp
qed

end
